theory Spec2Isabelle
  imports Main "HOL-Library.Word"
begin

text \<open>
  A model of the media transfer from the forms backend to the document library
  (\<^verbatim>\<open>kobo_sharepoint_media.py\<close>, class \<^verbatim>\<open>DirectMediaTransfer\<close>): the parsing of attachment
  fields, the derivation of destination file names, the duplicate check against the files
  already present, the streaming of one attachment and the processing of a form.

  Exceptions are values: a function that can raise returns \<open>py_error + 'a\<close>, and the
  handlers of the source are the places where an \<open>Inl\<close> is turned back into a result.
  The requests sent to the two platforms are returned as a list, in the order they are
  sent; what the platforms answer is a parameter.

  Bounds of the model. Text is a list of the code points U+0000 to U+00FF, so a JSON escape
  of four hexadecimal digits for a code point beyond U+00FF, which \<^verbatim>\<open>json.loads\<close>
  decodes, is refused by the decoder here. The decoder has no bound on nesting, where \<^verbatim>\<open>json.loads\<close> raises
  \<^verbatim>\<open>RecursionError\<close> beyond the interpreter's recursion limit (about a thousand nested
  arrays). A response body is cut into the blocks the transport delivers; the sizes of the
  short reads are part of the response. Console output, the pauses between requests and
  the creation of folders are left out.
\<close>

datatype py_error =
    JSONDecodeError | ValueError | TypeError | AttributeError | KeyError | IndexError
  | RequestException | HTTPError | OverflowError

definition bind_err :: "py_error + 'a \<Rightarrow> ('a \<Rightarrow> py_error + 'b) \<Rightarrow> py_error + 'b" where
  "bind_err r f = (case r of Inl e \<Rightarrow> Inl e | Inr x \<Rightarrow> f x)"

definition index_list :: "'a list \<Rightarrow> int \<Rightarrow> py_error + 'a" where
  \<comment> \<open>\<open>xs[i]\<close>: a negative index counts back from the end; out of range raises\<close>
  "index_list xs i =
     (if 0 \<le> i \<and> i < int (length xs) then Inr (xs ! nat i)
      else if i < 0 \<and> - i \<le> int (length xs) then Inr (xs ! nat (int (length xs) + i))
      else Inl IndexError)"

definition startswith :: "string \<Rightarrow> string \<Rightarrow> bool" where
  "startswith s p = (take (length p) s = p)"

definition endswith :: "string \<Rightarrow> string \<Rightarrow> bool" where
  "endswith s p = (length p \<le> length s \<and> drop (length s - length p) s = p)"

fun contains :: "string \<Rightarrow> string \<Rightarrow> bool" where
  "contains [] sub = (sub = [])"
| "contains (x # xs) sub = (startswith (x # xs) sub \<or> contains xs sub)"

fun split_on :: "char \<Rightarrow> string \<Rightarrow> string list" where
  "split_on c [] = [[]]"
| "split_on c (x # xs) =
     (if x = c then [] # split_on c xs
      else (case split_on c xs of
              [] \<Rightarrow> [[x]]
            | p # ps \<Rightarrow> (x # p) # ps))"

definition isdigit :: "char \<Rightarrow> bool" where
  "isdigit c = (let n = (of_char c :: nat) in 48 \<le> n \<and> n \<le> 57)"

definition isalnum :: "char \<Rightarrow> bool" where
  "isalnum c =
     (let n = (of_char c :: nat)
      in (48 \<le> n \<and> n \<le> 57) \<or> (65 \<le> n \<and> n \<le> 90) \<or> (97 \<le> n \<and> n \<le> 122)
         \<or> n \<in> {170, 178, 179, 181, 185, 186, 188, 189, 190}
         \<or> (192 \<le> n \<and> n \<le> 214) \<or> (216 \<le> n \<and> n \<le> 246) \<or> 248 \<le> n)"

definition isspace :: "char \<Rightarrow> bool" where
  "isspace c =
     (let n = (of_char c :: nat)
      in (9 \<le> n \<and> n \<le> 13) \<or> (28 \<le> n \<and> n \<le> 32) \<or> n = 133 \<or> n = 160)"

definition upper_chars :: string where
  "upper_chars = ''ABCDEFGHIJKLMNOPQRSTUVWXYZ'' @
     [CHR 0xC0, CHR 0xC1, CHR 0xC2, CHR 0xC3, CHR 0xC4, CHR 0xC5, CHR 0xC6, CHR 0xC7,
      CHR 0xC8, CHR 0xC9, CHR 0xCA, CHR 0xCB, CHR 0xCC, CHR 0xCD, CHR 0xCE, CHR 0xCF,
      CHR 0xD0, CHR 0xD1, CHR 0xD2, CHR 0xD3, CHR 0xD4, CHR 0xD5, CHR 0xD6,
      CHR 0xD8, CHR 0xD9, CHR 0xDA, CHR 0xDB, CHR 0xDC, CHR 0xDD, CHR 0xDE]"

definition lower_chars :: string where
  "lower_chars = ''abcdefghijklmnopqrstuvwxyz'' @
     [CHR 0xE0, CHR 0xE1, CHR 0xE2, CHR 0xE3, CHR 0xE4, CHR 0xE5, CHR 0xE6, CHR 0xE7,
      CHR 0xE8, CHR 0xE9, CHR 0xEA, CHR 0xEB, CHR 0xEC, CHR 0xED, CHR 0xEE, CHR 0xEF,
      CHR 0xF0, CHR 0xF1, CHR 0xF2, CHR 0xF3, CHR 0xF4, CHR 0xF5, CHR 0xF6,
      CHR 0xF8, CHR 0xF9, CHR 0xFA, CHR 0xFB, CHR 0xFC, CHR 0xFD, CHR 0xFE]"

definition lower_char :: "char \<Rightarrow> char" where
  "lower_char c = (case map_of (zip upper_chars lower_chars) c of None \<Rightarrow> c | Some d \<Rightarrow> d)"

definition lower :: "string \<Rightarrow> string" where
  "lower s = map lower_char s"

definition strip :: "string \<Rightarrow> string" where
  "strip s = rev (dropWhile isspace (rev (dropWhile isspace s)))"

definition rstrip_char :: "char \<Rightarrow> string \<Rightarrow> string" where
  "rstrip_char c s = rev (dropWhile (\<lambda>x. x = c) (rev s))"

function replace :: "string \<Rightarrow> string \<Rightarrow> string \<Rightarrow> string" where
  "replace old new [] = []"
| "replace old new (x # xs) =
     (if old \<noteq> [] \<and> startswith (x # xs) old
      then new @ replace old new (drop (length old) (x # xs))
      else x # replace old new xs)"
  by pat_completeness auto
termination
  by (relation "measure (\<lambda>(old, new, s). length s)") auto

function str_nat :: "nat \<Rightarrow> string" where
  "str_nat n = (if n < 10 then [''0123456789'' ! n]
                else str_nat (n div 10) @ [''0123456789'' ! (n mod 10)])"
  by pat_completeness auto
termination
  by (relation "measure id") auto

declare str_nat.simps [simp del]

definition str_int :: "int \<Rightarrow> string" where
  "str_int i = (if i < 0 then CHR ''-'' # str_nat (nat (- i)) else str_nat (nat i))"

datatype pyfloat = PyFloat bool string

datatype json =
    JNull
  | JBool bool
  | JInt int
  | JFloat pyfloat
  | JString string
  | JArray "json list"
  | JObject "(string \<times> json) list"

fun dict_set :: "(string \<times> 'v) list \<Rightarrow> string \<Rightarrow> 'v \<Rightarrow> (string \<times> 'v) list" where
  "dict_set [] k v = [(k, v)]"
| "dict_set ((k', v') # kvs) k v =
     (if k' = k then (k', v) # kvs else (k', v') # dict_set kvs k v)"

definition skip_ws :: "string \<Rightarrow> string" where
  "skip_ws s = dropWhile (\<lambda>c. c \<in> set [CHR '' '', CHR 0x09, CHR 0x0A, CHR 0x0D]) s"

definition hex_value :: "char \<Rightarrow> nat option" where
  "hex_value c =
     (let n = (of_char c :: nat)
      in if 48 \<le> n \<and> n \<le> 57 then Some (n - 48)
         else if 65 \<le> n \<and> n \<le> 70 then Some (n - 55)
         else if 97 \<le> n \<and> n \<le> 102 then Some (n - 87)
         else None)"

definition char_of_hex :: "nat \<Rightarrow> nat \<Rightarrow> char" where
  "char_of_hex h l =
     Char (odd l) (odd (l div 2)) (odd (l div 4)) (odd (l div 8))
          (odd h) (odd (h div 2)) (odd (h div 4)) (odd (h div 8))"

definition unescape :: "char \<Rightarrow> char option" where
  "unescape e =
     map_of [(CHR 0x22, CHR 0x22), (CHR 0x5C, CHR 0x5C), (CHR ''/'', CHR ''/''),
             (CHR ''b'', CHR 0x08), (CHR ''f'', CHR 0x0C), (CHR ''n'', CHR 0x0A),
             (CHR ''r'', CHR 0x0D), (CHR ''t'', CHR 0x09)] e"

fun scanstring :: "string \<Rightarrow> (string \<times> string) option" where
  "scanstring [] = None"
| "scanstring (c # cs) =
     (if c = CHR 0x22 then Some ([], cs)
      else if c = CHR 0x5C then
        (case cs of
           [] \<Rightarrow> None
         | e # es \<Rightarrow>
             if e = CHR ''u'' then
               (case es of
                  a # b # h # l # rest \<Rightarrow>
                    (case (hex_value a, hex_value b, hex_value h, hex_value l) of
                       (Some 0, Some 0, Some hv, Some lv) \<Rightarrow>
                         (case scanstring rest of
                            None \<Rightarrow> None
                          | Some (str, r) \<Rightarrow> Some (char_of_hex hv lv # str, r))
                     | _ \<Rightarrow> None)
                | _ \<Rightarrow> None)
             else
               (case unescape e of
                  None \<Rightarrow> None
                | Some d \<Rightarrow>
                    (case scanstring es of
                       None \<Rightarrow> None
                     | Some (str, r) \<Rightarrow> Some (d # str, r))))
      else if (of_char c :: nat) < 32 then None
      else (case scanstring cs of
              None \<Rightarrow> None
            | Some (str, r) \<Rightarrow> Some (c # str, r)))"


definition int_of_digits :: "string \<Rightarrow> int" where
  "int_of_digits ds = foldl (\<lambda>acc c. 10 * acc + (of_char c - 48)) 0 ds"

definition float_nonzero :: "string \<Rightarrow> string \<Rightarrow> int \<Rightarrow> bool" where
  \<comment> \<open>whether the decimal \<open>int_digits.frac_digits\<close> times ten to the \<open>ex\<close> rounds to a
      float other than zero: it does unless it is at most half the least subnormal\<close>
  "float_nonzero int_digits frac_digits ex =
     (let m = int_of_digits (int_digits @ frac_digits);
          e = ex - int (length frac_digits)
      in m \<noteq> 0 \<and> (0 \<le> e \<or> 10 ^ nat (- e) < m * 2 ^ 1075))"

definition scan_sign :: "string \<Rightarrow> string \<times> string" where
  "scan_sign s = (case s of
                    [] \<Rightarrow> ([], s)
                  | c # r \<Rightarrow> if c = CHR ''-'' then ([c], r) else ([], s))"

definition scan_int_part :: "string \<Rightarrow> (string \<times> string) option" where
  \<comment> \<open>\<open>0|[1-9]\d*\<close>\<close>
  "scan_int_part s =
     (case s of
        [] \<Rightarrow> None
      | c # r \<Rightarrow>
          if c = CHR ''0'' then Some ([c], r)
          else if isdigit c then Some (takeWhile isdigit s, dropWhile isdigit s)
          else None)"

definition scan_frac :: "string \<Rightarrow> string option \<times> string" where
  \<comment> \<open>\<open>(\.\d+)?\<close>\<close>
  "scan_frac s =
     (case s of
        c # d # r \<Rightarrow>
          if c = CHR ''.'' \<and> isdigit d
          then (Some (takeWhile isdigit (d # r)), dropWhile isdigit (d # r))
          else (None, s)
      | _ \<Rightarrow> (None, s))"

definition scan_exp :: "string \<Rightarrow> (string \<times> int) option \<times> string" where
  \<comment> \<open>\<open>([eE][-+]?\d+)?\<close>: the text of the exponent and its value\<close>
  "scan_exp s =
     (case s of
        [] \<Rightarrow> (None, s)
      | c # r \<Rightarrow>
          if c = CHR ''e'' \<or> c = CHR ''E'' then
            (let (esign, r') =
                   (case r of
                      [] \<Rightarrow> ([], r)
                    | g # t \<Rightarrow> if g = CHR ''-'' \<or> g = CHR ''+'' then ([g], t) else ([], r))
             in case r' of
                  [] \<Rightarrow> (None, s)
                | d # t \<Rightarrow>
                    if isdigit d
                    then (Some (c # esign @ takeWhile isdigit r',
                                (if esign = ''-'' then - 1 else 1)
                                  * int_of_digits (takeWhile isdigit r')),
                          dropWhile isdigit r')
                    else (None, s))
          else (None, s))"

definition scan_number :: "string \<Rightarrow> (py_error + json \<times> string) option" where
  \<comment> \<open>the decoder's number pattern; \<open>None\<close> when no number starts here. An integer
      literal of more than 4300 digits is refused by \<open>int\<close> with a plain ValueError.\<close>
  "scan_number s =
     (let (sign, s1) = scan_sign s
      in case scan_int_part s1 of
           None \<Rightarrow> None
         | Some (ds, s2) \<Rightarrow>
             let (frac, s3) = scan_frac s2;
                 (ex, s4) = scan_exp s3
             in if frac = None \<and> ex = None then
                  (if length ds > 4300 then Some (Inl ValueError)
                   else Some (Inr (JInt ((if sign = [] then 1 else - 1) * int_of_digits ds), s4)))
                else
                  (let fd = (case frac of None \<Rightarrow> [] | Some f \<Rightarrow> f);
                       text = sign @ ds @ (case frac of None \<Rightarrow> [] | Some f \<Rightarrow> CHR ''.'' # f)
                                @ (case ex of None \<Rightarrow> [] | Some (t, _) \<Rightarrow> t);
                       e = (case ex of None \<Rightarrow> 0 | Some (_, v) \<Rightarrow> v)
                   in Some (Inr (JFloat (PyFloat (float_nonzero ds fd e) text), s4))))"

definition scan_constant :: "string \<Rightarrow> (json \<times> string) option" where
  "scan_constant s =
     (if startswith s ''NaN'' then Some (JFloat (PyFloat True ''nan''), drop 3 s)
      else if startswith s ''Infinity'' then Some (JFloat (PyFloat True ''inf''), drop 8 s)
      else if startswith s ''-Infinity'' then Some (JFloat (PyFloat True ''-inf''), drop 9 s)
      else None)"

function scan_once :: "string \<Rightarrow> py_error + json \<times> string"
  and parse_array :: "string \<Rightarrow> json list \<Rightarrow> py_error + json \<times> string"
  and parse_object :: "string \<Rightarrow> (string \<times> json) list \<Rightarrow> py_error + json \<times> string"
where
  "scan_once s =
     (case s of
        [] \<Rightarrow> Inl JSONDecodeError
      | c # cs \<Rightarrow>
          if c = CHR 0x22 then
            (case scanstring cs of
               None \<Rightarrow> Inl JSONDecodeError
             | Some (str, rest) \<Rightarrow> Inr (JString str, rest))
          else if c = CHR ''{'' then
            (case skip_ws cs of
               [] \<Rightarrow> Inl JSONDecodeError
             | d # ds \<Rightarrow> if d = CHR ''}'' then Inr (JObject [], ds) else parse_object (skip_ws cs) [])
          else if c = CHR ''['' then
            (case skip_ws cs of
               [] \<Rightarrow> Inl JSONDecodeError
             | d # ds \<Rightarrow> if d = CHR '']'' then Inr (JArray [], ds) else parse_array (skip_ws cs) [])
          else if startswith s ''null'' then Inr (JNull, drop 4 s)
          else if startswith s ''true'' then Inr (JBool True, drop 4 s)
          else if startswith s ''false'' then Inr (JBool False, drop 5 s)
          else
            (case scan_number s of
               Some r \<Rightarrow> r
             | None \<Rightarrow>
                 (case scan_constant s of
                    Some r \<Rightarrow> Inr r
                  | None \<Rightarrow> Inl JSONDecodeError)))"
| "parse_array s acc =
     (case scan_once s of
        Inl e \<Rightarrow> Inl e
      | Inr (v, rest) \<Rightarrow>
          if length rest < length s then
            (case skip_ws rest of
               [] \<Rightarrow> Inl JSONDecodeError
             | d # ds \<Rightarrow>
                 if d = CHR '']'' then Inr (JArray (acc @ [v]), ds)
                 else if d = CHR '','' then parse_array (skip_ws ds) (acc @ [v])
                 else Inl JSONDecodeError)
          else Inl JSONDecodeError)"
| "parse_object s acc =
     (case s of
        [] \<Rightarrow> Inl JSONDecodeError
      | q # s1 \<Rightarrow>
          if q \<noteq> CHR 0x22 then Inl JSONDecodeError
          else
            (case scanstring s1 of
               None \<Rightarrow> Inl JSONDecodeError
             | Some (key, s2) \<Rightarrow>
                 (case skip_ws s2 of
                    [] \<Rightarrow> Inl JSONDecodeError
                  | c # s3 \<Rightarrow>
                      if c \<noteq> CHR '':'' \<or> \<not> length s3 < length s then Inl JSONDecodeError
                      else
                        (case scan_once (skip_ws s3) of
                           Inl e \<Rightarrow> Inl e
                         | Inr (v, rest) \<Rightarrow>
                             if length rest < length s then
                               (case skip_ws rest of
                                  [] \<Rightarrow> Inl JSONDecodeError
                                | d # ds \<Rightarrow>
                                    if d = CHR ''}'' then Inr (JObject (dict_set acc key v), ds)
                                    else if d = CHR '','' then parse_object (skip_ws ds) (dict_set acc key v)
                                    else Inl JSONDecodeError)
                             else Inl JSONDecodeError))))"
  by pat_completeness auto
termination
proof (relation "measure (\<lambda>x. case x of
                   Inl s \<Rightarrow> 2 * length s
                 | Inr (Inl (s, acc)) \<Rightarrow> 2 * length s + 1
                 | Inr (Inr (s, acc)) \<Rightarrow> 2 * length s + 1)", goal_cases)
  case 1
  show ?case by simp
next
  case (2 s c cs d ds)
  have "length (skip_ws cs) \<le> length cs" by (simp add: skip_ws_def length_dropWhile_le)
  with 2 show ?case by simp
next
  case (3 s c cs d ds)
  have "length (skip_ws cs) \<le> length cs" by (simp add: skip_ws_def length_dropWhile_le)
  with 3 show ?case by simp
next
  case (4 s acc)
  show ?case by simp
next
  case (5 s acc x v rest d ds)
  have a: "length (skip_ws ds) \<le> length ds" by (simp add: skip_ws_def length_dropWhile_le)
  have b: "length (skip_ws rest) \<le> length rest" by (simp add: skip_ws_def length_dropWhile_le)
  from 5 a b show ?case by simp
next
  case (6 s acc q s1 x key s2 c s3)
  have "length (skip_ws s3) \<le> length s3" by (simp add: skip_ws_def length_dropWhile_le)
  with 6 show ?case by simp
next
  case (7 s acc q s1 x key s2 c s3 y v rest d ds)
  have a: "length (skip_ws ds) \<le> length ds" by (simp add: skip_ws_def length_dropWhile_le)
  have b: "length (skip_ws rest) \<le> length rest" by (simp add: skip_ws_def length_dropWhile_le)
  from 7 a b show ?case by simp
qed

declare scan_once.simps [simp del] parse_array.simps [simp del] parse_object.simps [simp del]

definition json_loads :: "string \<Rightarrow> py_error + json" where
  "json_loads s =
     (case scan_once (skip_ws s) of
        Inl e \<Rightarrow> Inl e
      | Inr (v, rest) \<Rightarrow> if skip_ws rest = [] then Inr v else Inl JSONDecodeError)"

fun join :: "string \<Rightarrow> string list \<Rightarrow> string" where
  "join sep [] = []"
| "join sep [x] = x"
| "join sep (x # y # ys) = x @ sep @ join sep (y # ys)"

fun truthy :: "json \<Rightarrow> bool" where
  "truthy JNull = False"
| "truthy (JBool b) = b"
| "truthy (JInt i) = (i \<noteq> 0)"
| "truthy (JFloat (PyFloat nonzero text)) = nonzero"
| "truthy (JString s) = (s \<noteq> [])"
| "truthy (JArray xs) = (xs \<noteq> [])"
| "truthy (JObject kvs) = (kvs \<noteq> [])"

definition printable :: "char \<Rightarrow> bool" where
  "printable c = (let n = (of_char c :: nat) in \<not> (n < 32 \<or> (127 \<le> n \<and> n \<le> 160) \<or> n = 173))"

definition repr_char :: "char \<Rightarrow> char \<Rightarrow> string" where
  "repr_char quote c =
     (if c = CHR 0x5C then [CHR 0x5C, CHR 0x5C]
      else if c = quote then [CHR 0x5C, quote]
      else if c = CHR 0x09 then [CHR 0x5C, CHR ''t'']
      else if c = CHR 0x0A then [CHR 0x5C, CHR ''n'']
      else if c = CHR 0x0D then [CHR 0x5C, CHR ''r'']
      else if \<not> printable c then
        [CHR 0x5C, CHR ''x'', ''0123456789abcdef'' ! (of_char c div 16),
         ''0123456789abcdef'' ! (of_char c mod 16)]
      else [c])"

definition repr_str :: "string \<Rightarrow> string" where
  "repr_str s =
     (let quote = (if CHR 0x27 \<in> set s \<and> CHR 0x22 \<notin> set s then CHR 0x22 else CHR 0x27)
      in quote # concat (map (repr_char quote) s) @ [quote])"

fun py_repr :: "json \<Rightarrow> string" where
  "py_repr JNull = ''None''"
| "py_repr (JBool b) = (if b then ''True'' else ''False'')"
| "py_repr (JInt i) = str_int i"
| "py_repr (JFloat (PyFloat nonzero text)) = text"
| "py_repr (JString s) = repr_str s"
| "py_repr (JArray xs) = ''['' @ join '', '' (map py_repr xs) @ '']''"
| "py_repr (JObject kvs) =
     ''{'' @ join '', '' (map (\<lambda>kv. repr_str (fst kv) @ '': '' @ py_repr (snd kv)) kvs) @ ''}''"

definition py_str :: "json \<Rightarrow> string" where
  "py_str v = (case v of JString s \<Rightarrow> s | _ \<Rightarrow> py_repr v)"

definition dict_get :: "(string \<times> json) list \<Rightarrow> string \<Rightarrow> json \<Rightarrow> json" where
  "dict_get kvs k d = (case map_of kvs k of None \<Rightarrow> d | Some v \<Rightarrow> v)"

definition rfind :: "char \<Rightarrow> string \<Rightarrow> int" where
  "rfind c s = (case dropWhile (\<lambda>x. x \<noteq> c) (rev s) of
                  [] \<Rightarrow> - 1
                | _ # front \<Rightarrow> int (length front))"

definition splitext :: "string \<Rightarrow> string \<times> string" where
  "splitext p =
     (let sepIndex = rfind CHR ''/'' p;
          dotIndex = rfind CHR ''.'' p
      in if dotIndex > sepIndex
            \<and> list_ex (\<lambda>c. c \<noteq> CHR ''.'')
                  (take (nat (dotIndex - sepIndex - 1)) (drop (nat (sepIndex + 1)) p))
         then (take (nat dotIndex) p, drop (nat dotIndex) p)
         else (p, []))"

definition url_char :: "char \<Rightarrow> bool" where
  "url_char c = (\<not> isspace c \<and> c \<notin> set [CHR '','', CHR 0x27, CHR 0x22, CHR ''}'', CHR '']''])"

definition match_url :: "string \<Rightarrow> string option" where
  "match_url s =
     (if startswith s ''http'' then
        (let s1 = drop 4 s;
             (scheme, s2) = (if startswith s1 ''s'' then (''https'', drop 1 s1) else (''http'', s1))
         in if startswith s2 ''://'' then
              (let run = takeWhile url_char (drop 3 s2)
               in if CHR ''.'' \<in> set (butlast (tl run)) then Some (scheme @ ''://'' @ run) else None)
            else None)
      else None)"

fun findall_from :: "nat \<Rightarrow> string \<Rightarrow> string list" where
  "findall_from skip [] = []"
| "findall_from skip (c # cs) =
     (if skip > 0 then findall_from (skip - 1) cs
      else (case match_url (c # cs) of
              None \<Rightarrow> findall_from 0 cs
            | Some m \<Rightarrow> m # findall_from (length m - 1) cs))"

definition findall_urls :: "string \<Rightarrow> string list" where
  "findall_urls text = findall_from 0 text"

fun fallback_entries :: "string list \<Rightarrow> py_error + json list" where
  "fallback_entries [] = Inr []"
| "fallback_entries (found # rest) =
     (let url = rstrip_char CHR 0x27 (rstrip_char CHR 0x22 (rstrip_char CHR 0x5C found))
      in if list_ex (\<lambda>ext. contains (lower url) ext)
              [''.jpg'', ''.jpeg'', ''.png'', ''.gif'', ''.pdf'', ''.mp4'']
         then bind_err (index_list (split_on CHR ''/'' url) (- 1)) (\<lambda>segment.
              bind_err (index_list (split_on CHR ''?'' segment) 0) (\<lambda>name.
              bind_err (fallback_entries rest) (\<lambda>urls.
                Inr (JObject [(''download_url'', JString url),
                              (''filename'', JString (if name = [] then ''media_file'' else name))]
                     # urls))))
         else fallback_entries rest)"

definition extract_urls_fallback :: "string \<Rightarrow> py_error + json list" where
  "extract_urls_fallback text = fallback_entries (findall_urls text)"

definition unquote :: "string \<Rightarrow> string" where
  "unquote cleaned_str =
     (if startswith cleaned_str ''['' \<and> endswith cleaned_str '']'' then cleaned_str
      else if startswith cleaned_str [CHR 0x22, CHR ''[''] \<and> endswith cleaned_str [CHR '']'', CHR 0x22]
        then butlast (tl cleaned_str)
      else if startswith cleaned_str [CHR 0x22] \<and> endswith cleaned_str [CHR 0x22]
        then butlast (tl cleaned_str)
      else cleaned_str)"

definition as_list :: "json \<Rightarrow> json list" where
  "as_list attachments =
     (case attachments of
        JObject kvs \<Rightarrow> [attachments]
      | JArray xs \<Rightarrow> xs
      | _ \<Rightarrow> [])"

definition cleaned :: "string \<Rightarrow> string" where
  \<comment> \<open>lines 241-256: outer quotes removed, escaped quotes and slashes unescaped\<close>
  "cleaned attachments_str =
     replace [CHR 0x5C, CHR ''/''] ''/''
       (replace [CHR 0x5C, CHR 0x22] [CHR 0x22] (unquote (strip attachments_str)))"

definition parse_attachments_body :: "string \<Rightarrow> py_error + json list" where
  \<comment> \<open>the \<open>try\<close> block, lines 241-277\<close>
  "parse_attachments_body attachments_str =
     (case json_loads (cleaned attachments_str) of
        Inr attachments \<Rightarrow> Inr (as_list attachments)
      | Inl e \<Rightarrow>
          if e = JSONDecodeError then
            (case json_loads (replace [CHR 0x27] [CHR 0x22] (cleaned attachments_str)) of
               Inr attachments \<Rightarrow> Inr (as_list attachments)
             | Inl e' \<Rightarrow>
                 if e' = JSONDecodeError then extract_urls_fallback attachments_str
                 else Inl e')
          else Inl e)"

definition parse_attachments :: "string \<Rightarrow> py_error + json list" where
  "parse_attachments attachments_str =
     (if attachments_str = [] \<or> strip attachments_str = [] \<or> attachments_str = ''nan''
      then Inr []
      else (case parse_attachments_body attachments_str of
              Inr r \<Rightarrow> Inr r
            | Inl e \<Rightarrow> extract_urls_fallback attachments_str))"

definition url_keys :: "string list" where
  "url_keys = [''download_large_url'', ''download_url'', ''download_medium_url'']"

fun first_url :: "json \<Rightarrow> string list \<Rightarrow> py_error + json option" where
  "first_url attachment [] = Inr None"
| "first_url attachment (key # keys) =
     (case attachment of
        JObject kvs \<Rightarrow>
          (case map_of kvs key of
             Some v \<Rightarrow> if truthy v then Inr (Some v) else first_url attachment keys
           | None \<Rightarrow> first_url attachment keys)
      | JString s \<Rightarrow> if contains s key then Inl TypeError else first_url attachment keys
      | JArray xs \<Rightarrow> if JString key \<in> set xs then Inl TypeError else first_url attachment keys
      | _ \<Rightarrow> Inl TypeError)"

definition get_download_url :: "json \<Rightarrow> py_error + json option" where
  "get_download_url attachment = first_url attachment url_keys"

definition word_char :: "char \<Rightarrow> bool" where
  "word_char c = (isalnum c \<or> c = CHR ''_'')"

definition sanitize_filename :: "json \<Rightarrow> py_error + string" where
  "sanitize_filename filename =
     (case filename of
        JString s \<Rightarrow>
          (let safe_filename =
                 map (\<lambda>c. if word_char c \<or> c = CHR ''.'' \<or> c = CHR ''-'' then c else CHR ''_'') s
           in if length safe_filename > 100
              then (let (name, ext) = splitext safe_filename in Inr (take 95 name @ ext))
              else Inr safe_filename)
      | _ \<Rightarrow> Inl TypeError)"

datatype naming_format = Custom | Fallback

record stats =
  total_media :: int
  transferred :: int
  failed :: int
  skipped :: int
  total_size :: int

record direct_media_transfer =
  site_id :: string
  sp_drive_id :: string
  stats :: stats
  current_form_naming_format :: naming_format

subsection \<open>Dates\<close>

datatype directive = Lit char | Space | Year | Month | Day | Hour | Minute | Second | Micro

definition date_formats :: "directive list list" where
  "date_formats =
     [[Year, Lit CHR ''-'', Month, Lit CHR ''-'', Day],
      [Month, Lit CHR ''/'', Day, Lit CHR ''/'', Year],
      [Day, Lit CHR ''/'', Month, Lit CHR ''/'', Year],
      [Year, Lit CHR ''-'', Month, Lit CHR ''-'', Day, Space,
       Hour, Lit CHR '':'', Minute, Lit CHR '':'', Second],
      [Year, Lit CHR ''-'', Month, Lit CHR ''-'', Day, Lit CHR ''T'',
       Hour, Lit CHR '':'', Minute, Lit CHR '':'', Second],
      [Year, Lit CHR ''-'', Month, Lit CHR ''-'', Day, Lit CHR ''T'',
       Hour, Lit CHR '':'', Minute, Lit CHR '':'', Second, Lit CHR ''.'', Micro]]"

definition digit_value :: "char \<Rightarrow> nat" where
  "digit_value c = of_char c - 48"

definition two_or_one ::
  "(nat \<Rightarrow> nat \<Rightarrow> bool) \<Rightarrow> (nat \<Rightarrow> bool) \<Rightarrow> string \<Rightarrow> (nat \<times> string) option" where
  \<comment> \<open>a number of two digits accepted by \<open>two\<close>, or else of one digit accepted by \<open>one\<close>\<close>
  "two_or_one two one s =
     (case s of
        [] \<Rightarrow> None
      | a # r \<Rightarrow>
          if \<not> isdigit a then None
          else (case r of
                  b # r' \<Rightarrow>
                    if isdigit b \<and> two (digit_value a) (digit_value b)
                    then Some (10 * digit_value a + digit_value b, r')
                    else if one (digit_value a) then Some (digit_value a, r) else None
                | [] \<Rightarrow> if one (digit_value a) then Some (digit_value a, r) else None))"

definition scan_directive :: "directive \<Rightarrow> string \<Rightarrow> (nat \<times> string) option" where
  \<comment> \<open>the pattern \<open>strptime\<close> compiles a directive to (it matches ignoring case);
      the number read (0 for text) and the rest\<close>
  "scan_directive d s =
     (case d of
        Lit c \<Rightarrow> (case s of
                    [] \<Rightarrow> None
                  | x # r \<Rightarrow> if lower_char x = lower_char c then Some (0, r) else None)
      | Space \<Rightarrow> (case s of
                    [] \<Rightarrow> None
                  | x # r \<Rightarrow> if isspace x then Some (0, dropWhile isspace r) else None)
      | Year \<Rightarrow> (if length s \<ge> 4 \<and> list_all isdigit (take 4 s)
                  then Some (nat (int_of_digits (take 4 s)), drop 4 s) else None)
      | Month \<Rightarrow> two_or_one (\<lambda>a b. (a = 1 \<and> b \<le> 2) \<or> (a = 0 \<and> 1 \<le> b)) (\<lambda>a. 1 \<le> a) s
      | Day \<Rightarrow>
          (case two_or_one (\<lambda>a b. (a = 3 \<and> b \<le> 1) \<or> a = 1 \<or> a = 2 \<or> (a = 0 \<and> 1 \<le> b))
                  (\<lambda>a. 1 \<le> a) s of
             Some r \<Rightarrow> Some r
           | None \<Rightarrow>
               (case s of
                  x # a # r \<Rightarrow>
                    if x = CHR '' '' \<and> isdigit a \<and> 1 \<le> digit_value a
                    then Some (digit_value a, r) else None
                | _ \<Rightarrow> None))
      | Hour \<Rightarrow> two_or_one (\<lambda>a b. (a = 2 \<and> b \<le> 3) \<or> a \<le> 1) (\<lambda>a. True) s
      | Minute \<Rightarrow> two_or_one (\<lambda>a b. a \<le> 5) (\<lambda>a. True) s
      | Second \<Rightarrow> two_or_one (\<lambda>a b. (a = 6 \<and> b \<le> 1) \<or> a \<le> 5) (\<lambda>a. True) s
      | Micro \<Rightarrow> (case takeWhile isdigit (take 6 s) of
                    [] \<Rightarrow> None
                  | ds \<Rightarrow> Some (nat (int_of_digits ds), drop (length ds) s)))"

fun scan_format :: "directive list \<Rightarrow> string \<Rightarrow> (directive \<times> nat) list option" where
  \<comment> \<open>\<open>None\<close> when the text does not match or data remains after the last directive\<close>
  "scan_format [] s = (if s = [] then Some [] else None)"
| "scan_format (d # ds) s =
     (case scan_directive d s of
        None \<Rightarrow> None
      | Some (v, rest) \<Rightarrow>
          (case scan_format ds rest of
             None \<Rightarrow> None
           | Some parsed \<Rightarrow> Some ((d, v) # parsed)))"

definition days_in_month :: "nat \<Rightarrow> nat \<Rightarrow> nat" where
  "days_in_month y m =
     (if m = 2 then (if y mod 4 = 0 \<and> (y mod 100 \<noteq> 0 \<or> y mod 400 = 0) then 29 else 28)
      else if m \<in> set [4, 6, 9, 11] then 30 else 31)"

definition field_or :: "(directive \<times> nat) list \<Rightarrow> directive \<Rightarrow> nat \<Rightarrow> nat" where
  "field_or parsed d absent = (case map_of parsed d of None \<Rightarrow> absent | Some v \<Rightarrow> v)"

definition strptime :: "string \<Rightarrow> directive list \<Rightarrow> py_error + nat \<times> nat \<times> nat" where
  \<comment> \<open>\<open>datetime.strptime(s, fmt)\<close>, of which only the date is kept; every failure is
      a ValueError\<close>
  "strptime s fmt =
     (case scan_format fmt s of
        None \<Rightarrow> Inl ValueError
      | Some parsed \<Rightarrow>
          (let y = field_or parsed Year 1900; m = field_or parsed Month 1; d = field_or parsed Day 1
           in if 1 \<le> y \<and> d \<le> days_in_month y m \<and> field_or parsed Second 0 \<le> 59
              then Inr (y, m, d) else Inl ValueError))"

definition zero_pad :: "nat \<Rightarrow> nat \<Rightarrow> string" where
  "zero_pad width n = replicate (width - length (str_nat n)) CHR ''0'' @ str_nat n"

definition strftime_ymd :: "nat \<times> nat \<times> nat \<Rightarrow> string" where
  \<comment> \<open>\<open>dt.strftime("%Y-%m-%d")\<close> as the C library writes it: month and day with two
      digits, the year without leading zeros (\<open>999-06-26\<close> for the year 999)\<close>
  "strftime_ymd dt =
     (case dt of (y, m, d) \<Rightarrow> str_nat y @ ''-'' @ zero_pad 2 m @ ''-'' @ zero_pad 2 d)"

definition ymd_here :: "string \<Rightarrow> bool" where
  \<comment> \<open>\<open>\d{4}-\d{2}-\d{2}\<close> matches at the start\<close>
  "ymd_here s =
     (length s \<ge> 10 \<and> list_all isdigit (take 4 s) \<and> s ! 4 = CHR ''-''
      \<and> list_all isdigit (take 2 (drop 5 s)) \<and> s ! 7 = CHR ''-''
      \<and> list_all isdigit (take 2 (drop 8 s)))"

fun search_ymd :: "string \<Rightarrow> string option" where
  \<comment> \<open>\<open>re.search\<close> of that pattern: the leftmost match\<close>
  "search_ymd [] = None"
| "search_ymd (c # cs) = (if ymd_here (c # cs) then Some (take 10 (c # cs)) else search_ymd cs)"

fun try_formats :: "string \<Rightarrow> directive list list \<Rightarrow> string option" where
  "try_formats date_str [] = None"
| "try_formats date_str (fmt # fmts) =
     (case strptime (strip date_str) fmt of
        Inr dt \<Rightarrow> Some (strftime_ymd dt)
      | Inl e \<Rightarrow> try_formats date_str fmts)"

definition format_date :: "json \<Rightarrow> string" where
  "format_date date_str =
     (if \<not> truthy date_str then []
      else (case date_str of
              JString s \<Rightarrow>
                (case try_formats s date_formats of
                   Some formatted \<Rightarrow> formatted
                 | None \<Rightarrow>
                     (case search_ymd s of
                        Some found \<Rightarrow> found
                      | None \<Rightarrow> []))
            | _ \<Rightarrow> []))"

subsection \<open>Filenames\<close>

definition clean_text_for_filename :: "json \<Rightarrow> py_error + string" where
  "clean_text_for_filename text =
     (if \<not> truthy text then Inr []
      else (case text of
              JString s \<Rightarrow>
                (let cleaned = replace [CHR 0x5C] ''_'' (replace ''/'' ''_'' (replace '' '' ''_'' s))
                 in Inr (filter (\<lambda>c. isalnum c \<or> c \<in> set ''_-'') cleaned))
            | _ \<Rightarrow> Inl AttributeError))"

definition row_get :: "json \<Rightarrow> string \<Rightarrow> py_error + json" where
  \<comment> \<open>\<open>row_data.get(column, '')\<close>\<close>
  "row_get row_data column =
     (case row_data of
        JObject kvs \<Rightarrow> Inr (dict_get kvs column (JString []))
      | _ \<Rightarrow> Inl AttributeError)"

definition safe_char :: "char \<Rightarrow> bool" where
  \<comment> \<open>the test of line 350\<close>
  "safe_char c = (isalnum c \<or> c \<in> set ''._-'')"

definition create_filename_body ::
  "json \<Rightarrow> int \<Rightarrow> string \<Rightarrow> string \<Rightarrow> string \<Rightarrow> py_error + string \<times> naming_format" where
  "create_filename_body row_data row_num base_filename date_column type_column =
     bind_err (row_get row_data date_column) (\<lambda>date_value.
     bind_err (row_get row_data type_column) (\<lambda>receipt_type.
       let formatted_date = format_date date_value
       in bind_err (clean_text_for_filename receipt_type) (\<lambda>clean_receipt_type.
            let file_ext = (if snd (splitext base_filename) = [] then ''.jpg''
                            else snd (splitext base_filename));
                (custom_name, fmt) =
                  (if formatted_date \<noteq> [] \<and> clean_receipt_type \<noteq> []
                   then (formatted_date @ ''_'' @ clean_receipt_type @ ''_'' @ str_int row_num @ file_ext,
                         Custom)
                   else (''row'' @ str_int row_num @ ''_'' @ base_filename, Fallback))
            in Inr (filter safe_char custom_name, fmt))))"

definition create_filename ::
  "direct_media_transfer \<Rightarrow> json \<Rightarrow> int \<Rightarrow> string \<Rightarrow> string \<Rightarrow> string
     \<Rightarrow> string \<times> direct_media_transfer" where
  "create_filename self row_data row_num base_filename date_column type_column =
     (case create_filename_body row_data row_num base_filename date_column type_column of
        Inr (safe_name, fmt) \<Rightarrow> (safe_name, self\<lparr>current_form_naming_format := fmt\<rparr>)
      | Inl e \<Rightarrow> (''row'' @ str_int row_num @ ''_'' @ base_filename,
                  self\<lparr>current_form_naming_format := Fallback\<rparr>))"

subsection \<open>Destination index\<close>

type_synonym catalog = "(string \<times> string set) list"

definition row_ext_suffix :: "string \<Rightarrow> py_error + string" where
  \<comment> \<open>lines 668-670 and the suffix of line 674\<close>
  "row_ext_suffix filename =
     bind_err (index_list (split_on CHR ''_'' filename) (- 1)) (\<lambda>row_num_part.
     bind_err (index_list (split_on CHR ''.'' row_num_part) 0) (\<lambda>row_num.
     bind_err (if CHR ''.'' \<in> set row_num_part
               then bind_err (index_list (split_on CHR ''.'' row_num_part) 1)
                      (\<lambda>piece. Inr (CHR ''.'' # piece))
               else Inr []) (\<lambda>file_ext.
       Inr (''_'' @ row_num @ file_ext))))"

definition row_prefix :: "string \<Rightarrow> py_error + string" where
  \<comment> \<open>lines 685-686 and the prefix of line 690\<close>
  "row_prefix filename =
     bind_err (index_list (split_on CHR ''_'' filename) 0) (\<lambda>row_part.
       Inr (''row'' @ drop 3 row_part @ ''_''))"

definition is_file_already_uploaded ::
  "direct_media_transfer \<Rightarrow> string \<Rightarrow> string \<Rightarrow> catalog \<Rightarrow> bool" where
  "is_file_already_uploaded self filename form_name existing_files =
     (case map_of existing_files form_name of
        None \<Rightarrow> False
      | Some files \<Rightarrow>
          if filename \<in> files then True
          else if current_form_naming_format self = Custom then
            (if length (split_on CHR ''_'' filename) \<ge> 3 then
               (case row_ext_suffix filename of
                  Inr suffix \<Rightarrow> (\<exists>existing_file \<in> files. endswith existing_file suffix)
                | Inl e \<Rightarrow> False)
             else False)
          else
            (if startswith filename ''row'' then
               (case row_prefix filename of
                  Inr pre \<Rightarrow> (\<exists>existing_file \<in> files. startswith existing_file pre)
                               \<or> filename \<in> files
                | Inl e \<Rightarrow> False)
             else False))"

subsection \<open>The two platforms\<close>

type_synonym bytes = "8 word list"

record kobo_response =
  status_code :: int
  content_length_header :: "string option"
  body :: bytes
  reads :: "nat list"
  broken :: bool

record session_response =
  session_status_code :: int
  session_json :: "py_error + json"

record platforms =
  kobo_get :: "string \<Rightarrow> py_error + kobo_response"
  sp_put :: "string \<Rightarrow> bytes \<Rightarrow> py_error + int"
  sp_post :: "string \<Rightarrow> py_error + session_response"
  requests_put :: "string \<Rightarrow> (string \<times> string) list \<Rightarrow> bytes \<Rightarrow> py_error + int"
  form_data :: "string \<Rightarrow> json list"

datatype request =
    KoboGet json
  | SpPut string bytes
  | SpPost string
  | RequestsPut json "(string \<times> string) list" bytes

definition valid_int_literal :: "string \<Rightarrow> bool" where
  \<comment> \<open>digits, single underscores between them allowed\<close>
  "valid_int_literal ds =
     (ds \<noteq> [] \<and> isdigit (hd ds) \<and> isdigit (last ds)
      \<and> list_all (\<lambda>c. isdigit c \<or> c = CHR ''_'') ds
      \<and> \<not> contains ds ''__'')"

definition int_space :: "char \<Rightarrow> bool" where
  \<comment> \<open>the whitespace \<open>int\<close> skips: that of \<open>str.strip\<close> without the separators
      U+001C to U+001F\<close>
  "int_space c = (let n = (of_char c :: nat) in (9 \<le> n \<and> n \<le> 13) \<or> n = 32 \<or> n = 133 \<or> n = 160)"

definition py_int :: "string \<Rightarrow> py_error + int" where
  \<comment> \<open>\<open>int(s)\<close> of a string: surrounding whitespace and a sign are allowed; more than
      4300 digits are refused\<close>
  "py_int s =
     (let t = rev (dropWhile int_space (rev (dropWhile int_space s)));
          (negative, ds) = (case t of
                              [] \<Rightarrow> (False, t)
                            | c # r \<Rightarrow> if c = CHR ''-'' then (True, r)
                                       else if c = CHR ''+'' then (False, r)
                                       else (False, t))
      in if valid_int_literal ds \<and> length (filter isdigit ds) \<le> 4300
         then Inr ((if negative then - 1 else 1) * int_of_digits (filter isdigit ds))
         else Inl ValueError)"

definition true_div_overflows :: "int \<Rightarrow> bool" where
  \<comment> \<open>\<open>n / (1024 * 1024)\<close> raises OverflowError: the quotient rounds to a float beyond
      the largest one\<close>
  "true_div_overflows n = (2 ^ 1044 - 2 ^ 990 \<le> \<bar>n\<bar>)"

definition read_size :: "nat \<Rightarrow> nat list \<Rightarrow> nat" where
  \<comment> \<open>how much the next read of at most \<open>n\<close> bytes returns: the transport may deliver
      less than asked; a size of 0 or beyond \<open>n\<close>, and every read after the listed ones,
      is a full read\<close>
  "read_size n rs = (case rs of [] \<Rightarrow> n | r # _ \<Rightarrow> if 0 < r \<and> r < n then r else n)"

function blocks_of :: "nat \<Rightarrow> nat list \<Rightarrow> 'a list \<Rightarrow> 'a list list" where
  "blocks_of n rs xs =
     (if n = 0 \<or> xs = [] then []
      else take (read_size n rs) xs # blocks_of n (tl rs) (drop (read_size n rs) xs))"
  by pat_completeness auto
termination
  by (relation "measure (\<lambda>(n, rs, xs). length xs)")
     (auto simp: read_size_def split: list.splits)

declare blocks_of.simps [simp del]

definition content :: "kobo_response \<Rightarrow> py_error + bytes" where
  \<comment> \<open>\<open>response.content\<close>: the whole body, or the error of the broken connection\<close>
  "content r = (if broken r then Inl RequestException else Inr (body r))"

definition iter_content :: "kobo_response \<Rightarrow> nat \<Rightarrow> bytes list \<times> bool" where
  \<comment> \<open>\<open>response.iter_content(chunk_size)\<close>: the blocks it yields, each what one read of
      at most \<open>chunk_size\<close> bytes returned, and whether it then raises\<close>
  "iter_content r chunk_size = (blocks_of chunk_size (reads r) (body r), broken r)"

definition raise_for_status :: "kobo_response \<Rightarrow> py_error + unit" where
  "raise_for_status r =
     (if 400 \<le> status_code r \<and> status_code r < 600 then Inl HTTPError else Inr ())"

definition subscript :: "json \<Rightarrow> string \<Rightarrow> py_error + json" where
  \<comment> \<open>\<open>value[key]\<close> for a string key\<close>
  "subscript v key =
     (case v of
        JObject kvs \<Rightarrow> (case map_of kvs key of None \<Rightarrow> Inl KeyError | Some x \<Rightarrow> Inr x)
      | _ \<Rightarrow> Inl TypeError)"

definition put_any ::
  "platforms \<Rightarrow> json \<Rightarrow> (string \<times> string) list \<Rightarrow> bytes \<Rightarrow> py_error + int" where
  \<comment> \<open>\<open>requests.put(url, ...)\<close>: only a string can be a URL\<close>
  "put_any env url headers chunk =
     (case url of JString u \<Rightarrow> requests_put env u headers chunk | _ \<Rightarrow> Inl RequestException)"

definition get_any :: "platforms \<Rightarrow> json \<Rightarrow> py_error + kobo_response" where
  "get_any env url = (case url of JString u \<Rightarrow> kobo_get env u | _ \<Rightarrow> Inl RequestException)"

subsection \<open>Streaming one attachment\<close>

definition count_transferred :: "direct_media_transfer \<Rightarrow> int \<Rightarrow> direct_media_transfer" where
  "count_transferred self n =
     self\<lparr>stats := (stats self)\<lparr>transferred := transferred (stats self) + 1,
                                 total_size := total_size (stats self) + n\<rparr>\<rparr>"

definition count_failed :: "direct_media_transfer \<Rightarrow> direct_media_transfer" where
  "count_failed self = self\<lparr>stats := (stats self)\<lparr>failed := failed (stats self) + 1\<rparr>\<rparr>"

type_synonym outcome = "(py_error + bool) \<times> direct_media_transfer \<times> request list"

definition direct_upload ::
  "platforms \<Rightarrow> direct_media_transfer \<Rightarrow> string \<Rightarrow> kobo_response \<Rightarrow> request list \<Rightarrow> outcome" where
  \<comment> \<open>lines 163-174, and again lines 190-201\<close>
  "direct_upload env self upload_url kobo_response log =
     (case content kobo_response of
        Inl e \<Rightarrow> (Inl e, self, log)
      | Inr data \<Rightarrow>
          (case sp_put env upload_url data of
             Inl e \<Rightarrow> (Inl e, self, log @ [SpPut upload_url data])
           | Inr upload_status \<Rightarrow>
               if upload_status \<in> set [200, 201]
               then (Inr True, count_transferred self (int (length data)),
                     log @ [SpPut upload_url data])
               else (Inr False, count_failed self, log @ [SpPut upload_url data])))"

definition chunk_headers :: "int \<Rightarrow> int \<Rightarrow> int \<Rightarrow> (string \<times> string) list" where
  "chunk_headers offset chunk_length file_size =
     [(''Content-Length'', str_int chunk_length),
      (''Content-Range'',
       ''bytes '' @ str_int offset @ ''-'' @ str_int (offset + chunk_length - 1)
         @ ''/'' @ str_int file_size)]"

fun upload_chunks ::
  "platforms \<Rightarrow> json \<Rightarrow> int \<Rightarrow> bytes list \<Rightarrow> bool \<Rightarrow> int \<Rightarrow> request list
     \<Rightarrow> (py_error + bool) \<times> request list" where
  \<comment> \<open>the loop of lines 209-223: \<open>Inr False\<close> is the early return of line 221\<close>
  "upload_chunks env upload_url file_size [] raises offset log =
     (if raises then (Inl RequestException, log) else (Inr True, log))"
| "upload_chunks env upload_url file_size (chunk # rest) raises offset log =
     (if chunk \<noteq> [] then
        (let chunk_length = int (length chunk);
             headers = chunk_headers offset chunk_length file_size;
             log' = log @ [RequestsPut upload_url headers chunk]
         in case put_any env upload_url headers chunk of
              Inl e \<Rightarrow> (Inl e, log')
            | Inr chunk_status \<Rightarrow>
                if chunk_status \<notin> set [200, 201, 202] then (Inr False, log')
                else upload_chunks env upload_url file_size rest raises (offset + chunk_length) log')
      else upload_chunks env upload_url file_size rest raises offset log)"

definition graph_item_url :: "direct_media_transfer \<Rightarrow> string \<Rightarrow> string \<Rightarrow> string" where
  "graph_item_url self sharepoint_path filename =
     ''https://graph.microsoft.com/v1.0/sites/'' @ site_id self @ ''/drives/'' @ sp_drive_id self
       @ ''/root:/'' @ sharepoint_path @ ''/'' @ filename"

definition chunked_upload ::
  "platforms \<Rightarrow> direct_media_transfer \<Rightarrow> string \<Rightarrow> string \<Rightarrow> int option
     \<Rightarrow> kobo_response \<Rightarrow> request list \<Rightarrow> outcome" where
  \<comment> \<open>lines 177-228; \<open>reported\<close> is the content length read on line 161, if any\<close>
  "chunked_upload env self upload_url session_url reported kobo_response log =
     (case sp_post env session_url of
        Inl e \<Rightarrow> (Inl e, self, log @ [SpPost session_url])
      | Inr session_response \<Rightarrow>
          if session_status_code session_response \<noteq> 200
          then direct_upload env self upload_url kobo_response (log @ [SpPost session_url])
          else
            (case bind_err (session_json session_response) (\<lambda>j. subscript j ''uploadUrl'') of
               Inl e \<Rightarrow> (Inl e, self, log @ [SpPost session_url])
             | Inr chunk_url \<Rightarrow>
                 (let chunk_size = 320 * 1024;
                      file_size = (case reported of None \<Rightarrow> 0 | Some n \<Rightarrow> n)
                  in case iter_content kobo_response chunk_size of
                       (chunks, raises) \<Rightarrow>
                         (case upload_chunks env chunk_url file_size chunks raises 0
                                 (log @ [SpPost session_url]) of
                            (Inl e, log') \<Rightarrow> (Inl e, self, log')
                          | (Inr success, log') \<Rightarrow>
                              if success then (Inr True, count_transferred self file_size, log')
                              else (Inr False, count_failed self, log')))))"

definition reported_length :: "string option \<Rightarrow> py_error + int option" where
  \<comment> \<open>lines 152-154: the content length the source reports, read as an integer and
      divided for the size in MB; none when the header is absent or empty\<close>
  "reported_length content_length =
     (case content_length of
        None \<Rightarrow> Inr None
      | Some cl \<Rightarrow>
          if cl \<noteq> []
          then bind_err (py_int cl)
                 (\<lambda>n. if true_div_overflows n then Inl OverflowError else Inr (Some n))
          else Inr None)"

definition below_threshold :: "int option \<Rightarrow> bool" where
  \<comment> \<open>the test of line 161\<close>
  "below_threshold reported = (case reported of None \<Rightarrow> False | Some n \<Rightarrow> n < 4 * 1024 * 1024)"

definition stream_body ::
  "platforms \<Rightarrow> direct_media_transfer \<Rightarrow> json \<Rightarrow> string \<Rightarrow> string \<Rightarrow> outcome" where
  \<comment> \<open>the \<open>try\<close> block, lines 145-228\<close>
  "stream_body env self media_url sharepoint_path filename =
     (case bind_err (get_any env media_url)
             (\<lambda>r. bind_err (raise_for_status r) (\<lambda>_. Inr r)) of
        Inl e \<Rightarrow> (Inl e, self, [KoboGet media_url])
      | Inr kobo_response \<Rightarrow>
          (let upload_url = graph_item_url self sharepoint_path filename @ '':/content'';
               session_url = graph_item_url self sharepoint_path filename @ '':/createUploadSession''
           in case reported_length (content_length_header kobo_response) of
                Inl e \<Rightarrow> (Inl e, self, [KoboGet media_url])
              | Inr reported \<Rightarrow>
                  if below_threshold reported
                  then direct_upload env self upload_url kobo_response [KoboGet media_url]
                  else chunked_upload env self upload_url session_url reported
                         kobo_response [KoboGet media_url]))"

definition stream_media_to_sharepoint ::
  "platforms \<Rightarrow> direct_media_transfer \<Rightarrow> json \<Rightarrow> string \<Rightarrow> string
     \<Rightarrow> bool \<times> direct_media_transfer \<times> request list" where
  "stream_media_to_sharepoint env self media_url sharepoint_path filename =
     (case stream_body env self media_url sharepoint_path filename of
        (Inr success, self', log) \<Rightarrow> (success, self', log)
      | (Inl e, self', log) \<Rightarrow> (False, count_failed self', log))"

fun streamed :: "request list \<Rightarrow> bytes" where
  \<comment> \<open>the bytes written to an upload session, in the order sent\<close>
  "streamed [] = []"
| "streamed (RequestsPut url headers chunk # log) = chunk @ streamed log"
| "streamed (other # log) = streamed log"

subsection \<open>Processing a form\<close>

record media =
  m_url :: json
  m_filename :: json

record form_stats =
  processed :: int
  form_failed :: int
  form_skipped :: int

definition att_get :: "json \<Rightarrow> string \<Rightarrow> json \<Rightarrow> py_error + json" where
  \<comment> \<open>\<open>att.get(key, default)\<close>\<close>
  "att_get att key d =
     (case att of JObject kvs \<Rightarrow> Inr (dict_get kvs key d) | _ \<Rightarrow> Inl AttributeError)"

fun attachment_media :: "json list \<Rightarrow> int \<Rightarrow> py_error + media list" where
  \<comment> \<open>the loop of lines 514-520\<close>
  "attachment_media [] row_num = Inr []"
| "attachment_media (att # rest) row_num =
     bind_err (get_download_url att) (\<lambda>url.
       case url of
         None \<Rightarrow> attachment_media rest row_num
       | Some u \<Rightarrow>
           if truthy u then
             bind_err (att_get att ''filename'' (JString (''media_'' @ str_int row_num))) (\<lambda>name.
             bind_err (attachment_media rest row_num) (\<lambda>media_urls.
               Inr (\<lparr>m_url = u, m_filename = name\<rparr> # media_urls)))
           else attachment_media rest row_num)"

fun scanned_media :: "string list \<Rightarrow> int \<Rightarrow> py_error + media list" where
  \<comment> \<open>the loop of lines 526-531\<close>
  "scanned_media [] row_num = Inr []"
| "scanned_media (url # rest) row_num =
     (if list_ex (\<lambda>ext. contains (lower url) ext) [''.jpg'', ''.jpeg'', ''.png'', ''.pdf'', ''.mp4'']
      then bind_err (index_list (split_on CHR ''/'' url) (- 1)) (\<lambda>segment.
           bind_err (index_list (split_on CHR ''?'' segment) 0) (\<lambda>name.
           bind_err (scanned_media rest row_num) (\<lambda>media_urls.
             Inr (\<lparr>m_url = JString url,
                   m_filename = JString (if name = [] then ''media_'' @ str_int row_num
                                             else name)\<rparr>
                  # media_urls))))
      else scanned_media rest row_num)"

definition looks_like_media :: "string \<Rightarrow> bool" where
  \<comment> \<open>the test of lines 504-505\<close>
  "looks_like_media value_str =
     list_ex (\<lambda>indicator. contains (lower value_str) indicator)
       [''http'', ''attachment'', ''.jpg'', ''.jpeg'', ''.png'', ''.pdf'']"

definition field_media :: "json \<Rightarrow> int \<Rightarrow> py_error + media list" where
  \<comment> \<open>lines 497-531: the media found in one column value; a skipped column has none\<close>
  "field_media col_value row_num =
     (if \<not> truthy col_value then Inr []
      else
        (let value_str = py_str col_value
         in if \<not> looks_like_media value_str then Inr []
            else
              bind_err (if contains value_str ''['' \<or> contains value_str ''{''
                        then bind_err (parse_attachments value_str)
                               (\<lambda>attachments. attachment_media attachments row_num)
                        else Inr []) (\<lambda>media_urls.
                if media_urls = [] \<and> contains value_str ''http''
                then scanned_media (findall_urls value_str) row_num
                else Inr media_urls)))"

type_synonym progress = "direct_media_transfer \<times> form_stats \<times> request list"

definition transfer_media ::
  "platforms \<Rightarrow> catalog \<Rightarrow> json \<Rightarrow> int \<Rightarrow> string \<Rightarrow> string \<Rightarrow> progress \<Rightarrow> media
     \<Rightarrow> py_error option \<times> progress" where
  \<comment> \<open>lines 542-565 for one media entry; an error leaves what was counted before it\<close>
  "transfer_media env existing_files submission row_num safe_form_name col_folder p media =
     (case p of (self, fs, log) \<Rightarrow>
        let self = self\<lparr>stats := (stats self)\<lparr>total_media := total_media (stats self) + 1\<rparr>\<rparr>
        in case sanitize_filename (m_filename media) of
             Inl e \<Rightarrow> (Some e, self, fs, log)
           | Inr base_name \<Rightarrow>
               (case create_filename self submission row_num base_name ''Date'' ''Receipt_Type'' of
                  (filename, self) \<Rightarrow>
                    if existing_files \<noteq> []
                       \<and> is_file_already_uploaded self filename safe_form_name existing_files
                    then (None,
                          self\<lparr>stats := (stats self)\<lparr>skipped := skipped (stats self) + 1\<rparr>\<rparr>,
                          fs\<lparr>form_skipped := form_skipped fs + 1\<rparr>, log)
                    else
                      (case stream_media_to_sharepoint env self (m_url media) col_folder filename of
                         (success, self, sent) \<Rightarrow>
                           (None, self,
                            (if success then fs\<lparr>processed := processed fs + 1\<rparr>
                             else fs\<lparr>form_failed := form_failed fs + 1\<rparr>),
                            log @ sent))))"

fun transfer_all ::
  "platforms \<Rightarrow> catalog \<Rightarrow> json \<Rightarrow> int \<Rightarrow> string \<Rightarrow> string \<Rightarrow> progress \<Rightarrow> media list
     \<Rightarrow> progress" where
  \<comment> \<open>the loop of line 541, left at the first error (the handler of line 567)\<close>
  "transfer_all env existing_files submission row_num safe_form_name col_folder p [] = p"
| "transfer_all env existing_files submission row_num safe_form_name col_folder p (media # rest) =
     (case transfer_media env existing_files submission row_num safe_form_name col_folder p media of
        (Some e, p') \<Rightarrow> p'
      | (None, p') \<Rightarrow>
          transfer_all env existing_files submission row_num safe_form_name col_folder p' rest)"

definition process_column ::
  "platforms \<Rightarrow> catalog \<Rightarrow> json \<Rightarrow> int \<Rightarrow> string \<Rightarrow> string \<Rightarrow> progress
     \<Rightarrow> string \<times> json \<Rightarrow> progress" where
  \<comment> \<open>lines 496-569 for one column\<close>
  "process_column env existing_files submission row_num safe_form_name form_folder p col =
     (case col of (col_name, col_value) \<Rightarrow>
        (case field_media col_value row_num of
           Inl e \<Rightarrow> p
         | Inr media_urls \<Rightarrow>
             if media_urls \<noteq> [] then
               (let col_folder_name =
                      take 50 (map (\<lambda>c. if word_char c \<or> c = CHR ''-'' then c else CHR ''_'') col_name);
                    col_folder = form_folder @ ''/'' @ col_folder_name
                in transfer_all env existing_files submission row_num safe_form_name col_folder
                     p media_urls)
             else p))"

fun process_submissions ::
  "platforms \<Rightarrow> catalog \<Rightarrow> string \<Rightarrow> string \<Rightarrow> int \<Rightarrow> progress \<Rightarrow> json list \<Rightarrow> progress" where
  \<comment> \<open>the loop of line 488, \<open>row_num\<close> counting from 1\<close>
  "process_submissions env existing_files safe_form_name form_folder row_num p [] = p"
| "process_submissions env existing_files safe_form_name form_folder row_num p (submission # rest) =
     process_submissions env existing_files safe_form_name form_folder (row_num + 1)
       (case submission of
          JObject cols \<Rightarrow>
            foldl (process_column env existing_files submission row_num safe_form_name form_folder)
              p cols
        | _ \<Rightarrow> p)
       rest"

definition process_form_media ::
  "platforms \<Rightarrow> direct_media_transfer \<Rightarrow> string \<Rightarrow> string \<Rightarrow> string \<Rightarrow> catalog \<Rightarrow> progress" where
  "process_form_media env self form_uid form_name main_folder existing_files =
     (let self = self\<lparr>current_form_naming_format := Fallback\<rparr>;
          data = form_data env form_uid;
          fs = \<lparr>processed = 0, form_failed = 0, form_skipped = 0\<rparr>
      in case data of
           [] \<Rightarrow> (self, fs, [])
         | first_submission # _ \<Rightarrow>
             (case create_filename self first_submission 1 ''test.jpg'' ''Date'' ''Receipt_Type'' of
                (test_filename, self) \<Rightarrow>
                  (let safe_form_name =
                         map (\<lambda>c. if word_char c \<or> isspace c \<or> c = CHR ''-'' then c else CHR ''_'')
                           form_name;
                       form_folder = main_folder @ ''/'' @ safe_form_name
                   in process_submissions env existing_files safe_form_name form_folder 1
                        (self, fs, []) data)))"

subsection \<open>Example data\<close>

definition example_self :: direct_media_transfer where
  "example_self =
     \<lparr>site_id = ''site'', sp_drive_id = ''drive'',
      stats = \<lparr>total_media = 0, transferred = 0, failed = 0, skipped = 0, total_size = 0\<rparr>,
      current_form_naming_format = Fallback\<rparr>"

definition example_response :: kobo_response where
  "example_response =
     \<lparr>status_code = 200, content_length_header = Some ''3'', body = [1, 2, 3], reads = [], broken = False\<rparr>"

definition example_session :: session_response where
  "example_session =
     \<lparr>session_status_code = 200,
      session_json = Inr (JObject [(''uploadUrl'', JString ''https://upload.example/1'')])\<rparr>"

definition example_submissions :: "json list" where
  "example_submissions =
     [JObject [(''Date'', JString ''2025-06-26''), (''Receipt_Type'', JString ''Food''),
               (''photo'', JString ''http://kobo.example/a.jpg'')],
      JObject [(''Receipt_Type'', JString ''Food''),
               (''photo'', JString ''http://kobo.example/b.jpg'')]]"

definition example_platforms :: platforms where
  "example_platforms =
     \<lparr>kobo_get = (\<lambda>url. Inr example_response),
      sp_put = (\<lambda>url data. Inr 201),
      sp_post = (\<lambda>url. Inr example_session),
      requests_put = (\<lambda>url headers data. Inr 202),
      form_data = (\<lambda>form_uid. example_submissions)\<rparr>"

definition example_catalog :: catalog where
  "example_catalog = [(''Receipts'', {''row2_old.png''})]"

subsection \<open>The download URL as the specification words it\<close>

definition has_nonempty :: "(string \<times> json) list \<Rightarrow> string \<Rightarrow> bool" where
  \<comment> \<open>the element has the key, with a value that is not empty\<close>
  "has_nonempty kvs key = (case map_of kvs key of None \<Rightarrow> False | Some v \<Rightarrow> truthy v)"

definition priority_url :: "(string \<times> json) list \<Rightarrow> json option" where
  \<comment> \<open>the large variant if present, else the default one, else the medium one\<close>
  "priority_url kvs =
     (if has_nonempty kvs ''download_large_url'' then map_of kvs ''download_large_url''
      else if has_nonempty kvs ''download_url'' then map_of kvs ''download_url''
      else if has_nonempty kvs ''download_medium_url'' then map_of kvs ''download_medium_url''
      else None)"

subsection \<open>The derived filename as the specification words it\<close>

definition normalized_date :: "json \<Rightarrow> string \<Rightarrow> string" where
  \<comment> \<open>the date field of the record, normalized; empty when the record has no usable date\<close>
  "normalized_date row_data date_column =
     (case row_get row_data date_column of Inr v \<Rightarrow> format_date v | Inl e \<Rightarrow> [])"

definition normalized_category :: "json \<Rightarrow> string \<Rightarrow> string" where
  \<comment> \<open>the category field of the record, normalized; empty when the record has no usable
      category\<close>
  "normalized_category row_data type_column =
     (case bind_err (row_get row_data type_column) clean_text_for_filename of
        Inr c \<Rightarrow> c
      | Inl e \<Rightarrow> [])"

definition extension_or_jpg :: "string \<Rightarrow> string" where
  \<comment> \<open>the extension of the base filename, \<open>.jpg\<close> if it has none\<close>
  "extension_or_jpg base_filename =
     (if snd (splitext base_filename) = [] then ''.jpg'' else snd (splitext base_filename))"

definition is_iso_date :: "string \<Rightarrow> bool" where
  \<comment> \<open>the shape \<open>YYYY-MM-DD\<close>: ten characters, digits around two dashes\<close>
  "is_iso_date s = (length s = 10 \<and> ymd_here s)"

definition is_date_text :: "string \<Rightarrow> bool" where
  \<comment> \<open>a year of one to four digits, a dash, two digits, a dash, two digits\<close>
  "is_date_text s =
     (let y = takeWhile isdigit s; r = drop (length y) s
      in 1 \<le> length y \<and> length y \<le> 4 \<and> length r = 6
         \<and> r ! 0 = CHR ''-'' \<and> isdigit (r ! 1) \<and> isdigit (r ! 2)
         \<and> r ! 3 = CHR ''-'' \<and> isdigit (r ! 4) \<and> isdigit (r ! 5))"

section \<open>Properties of the destination index\<close>

lemma split_on_nonempty: "split_on c s \<noteq> []"
  by (induction s) (auto split: list.splits)

lemma index_list_last: "xs \<noteq> [] \<Longrightarrow> index_list xs (- 1) = Inr (last xs)"
  by (cases xs rule: rev_cases) (auto simp: index_list_def nth_append)

lemma index_list_first: "xs \<noteq> [] \<Longrightarrow> index_list xs 0 = Inr (hd xs)"
  by (cases xs) (auto simp: index_list_def)

lemma split_on_length: "length (split_on c s) = Suc (length (filter (\<lambda>x. x = c) s))"
  by (induction s) (auto split: list.splits simp: split_on_nonempty)

lemma split_on_second: "c \<in> set s \<Longrightarrow> \<exists>y. index_list (split_on c s) 1 = Inr y"
proof -
  assume "c \<in> set s"
  then have "filter (\<lambda>x. x = c) s \<noteq> []" by (auto simp: filter_empty_conv)
  then have "length (split_on c s) \<ge> 2"
    by (cases "filter (\<lambda>x. x = c) s") (auto simp: split_on_length)
  then show ?thesis by (auto simp: index_list_def)
qed

lemma row_ext_suffix_total: "\<exists>suffix. row_ext_suffix filename = Inr suffix"
proof -
  let ?part = "last (split_on CHR ''_'' filename)"
  have a: "index_list (split_on CHR ''_'' filename) (- 1) = Inr ?part"
    by (rule index_list_last) (rule split_on_nonempty)
  have b: "index_list (split_on CHR ''.'' ?part) 0 = Inr (hd (split_on CHR ''.'' ?part))"
    by (rule index_list_first) (rule split_on_nonempty)
  show ?thesis
  proof (cases "CHR ''.'' \<in> set ?part")
    case True
    from split_on_second [OF True] obtain y where "index_list (split_on CHR ''.'' ?part) 1 = Inr y" ..
    with a b True show ?thesis by (simp add: row_ext_suffix_def bind_err_def)
  next
    case False
    with a b show ?thesis by (simp add: row_ext_suffix_def bind_err_def)
  qed
qed

section \<open>Properties of the transfer of one attachment\<close>

lemma direct_upload_counts:
  assumes "direct_upload env self u r log = (res, self', log')"
  shows "(\<exists>e. res = Inl e \<and> self' = self)
       \<or> (res = Inr True \<and> (\<exists>n. self' = count_transferred self n))
       \<or> (res = Inr False \<and> self' = count_failed self)"
  using assms by (auto simp: direct_upload_def split: sum.splits if_splits)

lemma chunked_upload_counts:
  assumes "chunked_upload env self u su reported r log = (res, self', log')"
  shows "(\<exists>e. res = Inl e \<and> self' = self)
       \<or> (res = Inr True \<and> (\<exists>n. self' = count_transferred self n))
       \<or> (res = Inr False \<and> self' = count_failed self)"
proof (cases "sp_post env su")
  case (Inl e)
  with assms show ?thesis by (auto simp: chunked_upload_def)
next
  case (Inr sr)
  show ?thesis
  proof (cases "session_status_code sr = 200")
    case False
    with Inr assms have "direct_upload env self u r (log @ [SpPost su]) = (res, self', log')"
      by (simp add: chunked_upload_def)
    then show ?thesis by (rule direct_upload_counts)
  next
    case True
    with Inr assms show ?thesis
      by (auto simp: chunked_upload_def Let_def split: sum.splits prod.splits if_splits)
  qed
qed

lemma stream_body_counts:
  assumes "stream_body env self media_url path filename = (res, self', log')"
  shows "(\<exists>e. res = Inl e \<and> self' = self)
       \<or> (res = Inr True \<and> (\<exists>n. self' = count_transferred self n))
       \<or> (res = Inr False \<and> self' = count_failed self)"
  using assms
  by (auto simp: stream_body_def Let_def split: sum.splits option.splits if_splits
      dest: direct_upload_counts chunked_upload_counts)

text \<open>
  C9. Every call of \<open>stream_media_to_sharepoint\<close> adds one to exactly one of the
  counters \<open>transferred\<close> and \<open>failed\<close>, and returns \<open>True\<close> exactly when the one it
  adds to is \<open>transferred\<close>.
\<close>

theorem stream_counts_exactly_one:
  assumes "stream_media_to_sharepoint env self media_url sharepoint_path filename
             = (success, self', log)"
  shows "(success \<and> transferred (stats self') = transferred (stats self) + 1
                  \<and> failed (stats self') = failed (stats self))
       \<or> (\<not> success \<and> failed (stats self') = failed (stats self) + 1
                    \<and> transferred (stats self') = transferred (stats self))"
proof -
  obtain res s l where b: "stream_body env self media_url sharepoint_path filename = (res, s, l)"
    by (cases "stream_body env self media_url sharepoint_path filename") auto
  from stream_body_counts [OF b] assms b show ?thesis
    by (auto simp: stream_media_to_sharepoint_def count_transferred_def count_failed_def
        split: sum.splits)
qed


theorem stream_counts_exactly_one_witness:
  "fst (stream_media_to_sharepoint example_platforms example_self
          (JString ''http://kobo.example/a.jpg'') ''Main/Form/photo'' ''row1_a.jpg'')
   \<and> transferred (stats (fst (snd (stream_media_to_sharepoint example_platforms example_self
          (JString ''http://kobo.example/a.jpg'') ''Main/Form/photo'' ''row1_a.jpg'')))) = 1
   \<and> failed (stats (fst (snd (stream_media_to_sharepoint example_platforms example_self
          (JString ''http://kobo.example/a.jpg'') ''Main/Form/photo'' ''row1_a.jpg'')))) = 0
   \<and> \<not> fst (stream_media_to_sharepoint example_platforms example_self
          (JInt 7) ''Main/Form/photo'' ''row1_a.jpg'')
   \<and> transferred (stats (fst (snd (stream_media_to_sharepoint example_platforms example_self
          (JInt 7) ''Main/Form/photo'' ''row1_a.jpg'')))) = 0
   \<and> failed (stats (fst (snd (stream_media_to_sharepoint example_platforms example_self
          (JInt 7) ''Main/Form/photo'' ''row1_a.jpg'')))) = 1"
proof -
  let ?r = "stream_media_to_sharepoint example_platforms example_self
              (JString ''http://kobo.example/a.jpg'') ''Main/Form/photo'' ''row1_a.jpg''"
  let ?q = "stream_media_to_sharepoint example_platforms example_self
              (JInt 7) ''Main/Form/photo'' ''row1_a.jpg''"
  have r: "?r = (fst ?r, fst (snd ?r), snd (snd ?r))" by simp
  have q: "?q = (fst ?q, fst (snd ?q), snd (snd ?q))" by simp
  have ok: "fst ?r"
    apply (simp add: stream_media_to_sharepoint_def stream_body_def get_any_def
        raise_for_status_def example_platforms_def example_response_def bind_err_def)
    apply (simp add: reported_length_def below_threshold_def py_int_def int_space_def true_div_overflows_def
        valid_int_literal_def isdigit_def startswith_def int_of_digits_def bind_err_def)
    apply (simp add: direct_upload_def content_def)
    done
  have no: "\<not> fst ?q"
    by (simp add: stream_media_to_sharepoint_def stream_body_def get_any_def bind_err_def)
  from stream_counts_exactly_one [OF r] ok stream_counts_exactly_one [OF q] no
  show ?thesis by (simp add: example_self_def)
qed

lemma blocks_of_Nil: "blocks_of n rs [] = []"
  by (simp add: blocks_of.simps)

lemma blocks_of_step:
  "0 < n \<Longrightarrow> xs \<noteq> [] \<Longrightarrow>
     blocks_of n rs xs = take (read_size n rs) xs # blocks_of n (tl rs) (drop (read_size n rs) xs)"
  by (subst blocks_of.simps) simp

lemma read_size_bounds: "0 < n \<Longrightarrow> 0 < read_size n rs \<and> read_size n rs \<le> n"
  by (auto simp: read_size_def split: list.splits)


lemma blocks_of_bounds: "c \<in> set (blocks_of n rs xs) \<Longrightarrow> c \<noteq> [] \<and> length c \<le> n"
proof (induction n rs xs rule: blocks_of.induct)
  case (1 n rs xs)
  show ?case
  proof (cases "n = 0 \<or> xs = []")
    case True
    with 1 show ?thesis by (simp add: blocks_of.simps)
  next
    case False
    then have "blocks_of n rs xs
                 = take (read_size n rs) xs # blocks_of n (tl rs) (drop (read_size n rs) xs)"
      by (simp add: blocks_of_step)
    with 1 False read_size_bounds [of n rs] show ?thesis by auto
  qed
qed

lemma concat_blocks_of: "0 < n \<Longrightarrow> concat (blocks_of n rs xs) = xs"
proof (induction n rs xs rule: blocks_of.induct)
  case (1 n rs xs)
  show ?case
  proof (cases "xs = []")
    case True
    then show ?thesis by (simp add: blocks_of_Nil)
  next
    case False
    with 1 show ?thesis by (simp add: blocks_of_step)
  qed
qed









lemma chunked_upload_session:
  assumes "sp_post env su = Inr sr" and "session_status_code sr = 200"
      and "session_json sr = Inr j" and "subscript j ''uploadUrl'' = Inr chunk_url"
  shows "chunked_upload env self u su reported r log
           = (case upload_chunks env chunk_url (case reported of None \<Rightarrow> 0 | Some n \<Rightarrow> n)
                    (fst (iter_content r (320 * 1024))) (broken r) 0 (log @ [SpPost su]) of
                (Inl e, log') \<Rightarrow> (Inl e, self, log')
              | (Inr ok, log') \<Rightarrow>
                  if ok then (Inr True,
                              count_transferred self (case reported of None \<Rightarrow> 0 | Some n \<Rightarrow> n),
                              log')
                  else (Inr False, count_failed self, log'))"
  using assms by (simp add: chunked_upload_def iter_content_def bind_err_def Let_def)









lemma stream_body_chunked:
  assumes "get_any env media_url = Inr resp"
      and "raise_for_status resp = Inr ()"
      and "reported_length (content_length_header resp) = Inr reported"
      and "\<not> (\<exists>n. reported = Some n \<and> n < 4 * 1024 * 1024)"
  shows "stream_body env self media_url sharepoint_path filename
           = chunked_upload env self (graph_item_url self sharepoint_path filename @ '':/content'')
               (graph_item_url self sharepoint_path filename @ '':/createUploadSession'')
               reported resp [KoboGet media_url]"
  using assms
  by (auto simp: stream_body_def bind_err_def Let_def below_threshold_def split: option.splits)

text \<open>
  C5. On the chunked path (no content length below 4 MiB reported, upload session
  opened), when the destination answers the first block with a status other than 200,
  201 and 202, the transfer returns \<open>False\<close>, \<open>failed\<close> grows by one and nothing else
  in the statistics changes: no byte is credited.
\<close>

theorem first_chunk_refused:
  assumes "get_any env media_url = Inr resp"
      and "raise_for_status resp = Inr ()"
      and "reported_length (content_length_header resp) = Inr reported"
      and "\<not> (\<exists>n. reported = Some n \<and> n < 4 * 1024 * 1024)"
      and "sp_post env (graph_item_url self sharepoint_path filename @ '':/createUploadSession'')
             = Inr sr"
      and "session_status_code sr = 200"
      and "session_json sr = Inr j"
      and "subscript j ''uploadUrl'' = Inr chunk_url"
      and "fst (iter_content resp (320 * 1024)) = chunk # rest"
      and "put_any env chunk_url
             (chunk_headers 0 (int (length chunk))
                (case reported of None \<Rightarrow> 0 | Some n \<Rightarrow> n))
             chunk = Inr chunk_status"
      and "chunk_status \<notin> {200, 201, 202}"
      and "stream_media_to_sharepoint env self media_url sharepoint_path filename
             = (success, self', log)"
  shows "\<not> success
       \<and> self' = self\<lparr>stats := (stats self)\<lparr>failed := failed (stats self) + 1\<rparr>\<rparr>
       \<and> failed (stats self') = failed (stats self) + 1
       \<and> total_size (stats self') = total_size (stats self)
       \<and> transferred (stats self') = transferred (stats self)"
proof -
  let ?su = "graph_item_url self sharepoint_path filename @ '':/createUploadSession''"
  have "chunk \<in> set (blocks_of (320 * 1024) (reads resp) (body resp))"
    using assms(9) by (simp add: iter_content_def)
  then have ne: "chunk \<noteq> []" using blocks_of_bounds by blast
  have "stream_body env self media_url sharepoint_path filename
       = (Inr False, count_failed self,
          [KoboGet media_url, SpPost ?su,
           RequestsPut chunk_url
             (chunk_headers 0 (int (length chunk))
                (case reported of None \<Rightarrow> 0 | Some n \<Rightarrow> n))
             chunk])"
    unfolding stream_body_chunked [OF assms(1-4)] chunked_upload_session [OF assms(5-8)]
      assms(9)
    using assms(10,11) ne by (simp add: Let_def)
  with assms(12) show ?thesis
    by (auto simp: stream_media_to_sharepoint_def count_failed_def)
qed

theorem first_chunk_refused_witness:
  "\<not> fst (stream_media_to_sharepoint
       (example_platforms\<lparr>kobo_get := \<lambda>url. Inr (example_response\<lparr>content_length_header := None\<rparr>),
                          requests_put := \<lambda>url headers data. Inr 500\<rparr>)
       example_self (JString ''http://kobo.example/a.jpg'') ''Main/Form/photo'' ''row1_a.jpg'')
   \<and> stats (fst (snd (stream_media_to_sharepoint
       (example_platforms\<lparr>kobo_get := \<lambda>url. Inr (example_response\<lparr>content_length_header := None\<rparr>),
                          requests_put := \<lambda>url headers data. Inr 500\<rparr>)
       example_self (JString ''http://kobo.example/a.jpg'') ''Main/Form/photo'' ''row1_a.jpg'')))
     = \<lparr>total_media = 0, transferred = 0, failed = 1, skipped = 0, total_size = 0\<rparr>
   \<and> snd (snd (stream_media_to_sharepoint
       (example_platforms\<lparr>kobo_get := \<lambda>url. Inr (example_response\<lparr>content_length_header := None\<rparr>),
                          requests_put := \<lambda>url headers data. Inr 500\<rparr>)
       example_self (JString ''http://kobo.example/a.jpg'') ''Main/Form/photo'' ''row1_a.jpg''))
     = [KoboGet (JString ''http://kobo.example/a.jpg''),
        SpPost ''https://graph.microsoft.com/v1.0/sites/site/drives/drive/root:/Main/Form/photo/row1_a.jpg:/createUploadSession'',
        RequestsPut (JString ''https://upload.example/1'')
          [(''Content-Length'', ''3''), (''Content-Range'', ''bytes 0-2/0'')] [1, 2, 3]]"
proof -
  let ?env = "example_platforms\<lparr>kobo_get := \<lambda>url. Inr (example_response\<lparr>content_length_header := None\<rparr>),
                        requests_put := \<lambda>url headers data. Inr 500\<rparr>"
  let ?resp = "example_response\<lparr>content_length_header := None\<rparr>"
  let ?url = "JString ''http://kobo.example/a.jpg''"
  let ?r = "stream_media_to_sharepoint ?env example_self ?url ''Main/Form/photo'' ''row1_a.jpg''"
  have 1: "get_any ?env ?url = Inr ?resp" by (simp add: get_any_def)
  have 2: "raise_for_status ?resp = Inr ()"
    by (simp add: raise_for_status_def example_response_def)
  have 3: "reported_length (content_length_header ?resp) = Inr None"
    by (simp add: reported_length_def)
  have 4: "\<not> (\<exists>n. (None :: int option) = Some n \<and> n < 4 * 1024 * 1024)" by simp
  have 5: "sp_post ?env (graph_item_url example_self ''Main/Form/photo'' ''row1_a.jpg''
             @ '':/createUploadSession'') = Inr example_session"
    by (simp add: example_platforms_def)
  have 6: "session_status_code example_session = 200" by (simp add: example_session_def)
  have 7: "session_json example_session
             = Inr (JObject [(''uploadUrl'', JString ''https://upload.example/1'')])"
    by (simp add: example_session_def)
  have 8: "subscript (JObject [(''uploadUrl'', JString ''https://upload.example/1'')]) ''uploadUrl''
             = Inr (JString ''https://upload.example/1'')"
    by (simp add: subscript_def)
  have 9: "fst (iter_content ?resp (320 * 1024)) = [1, 2, 3] # []"
    by (simp add: iter_content_def example_response_def blocks_of.simps read_size_def)
  have 10: "put_any ?env (JString ''https://upload.example/1'')
             (chunk_headers 0 (int (length [1, 2, 3 :: 8 word]))
                (case None of None \<Rightarrow> 0 | Some n \<Rightarrow> n))
             [1, 2, 3] = Inr 500"
    by (simp add: put_any_def)
  have 11: "(500 :: int) \<notin> {200, 201, 202}" by simp
  have 12: "?r = (fst ?r, fst (snd ?r), snd (snd ?r))" by simp
  have log: "snd (snd ?r) = [KoboGet ?url,
       SpPost ''https://graph.microsoft.com/v1.0/sites/site/drives/drive/root:/Main/Form/photo/row1_a.jpg:/createUploadSession'',
       RequestsPut (JString ''https://upload.example/1'')
         [(''Content-Length'', ''3''), (''Content-Range'', ''bytes 0-2/0'')] [1, 2, 3]]"
    apply (simp add: stream_media_to_sharepoint_def stream_body_def get_any_def
        raise_for_status_def example_response_def bind_err_def)
    apply (simp add: reported_length_def below_threshold_def)
    apply (simp add: chunked_upload_def example_platforms_def example_session_def bind_err_def
        subscript_def)
    apply (simp add: iter_content_def blocks_of.simps read_size_def)
    apply (simp add: put_any_def chunk_headers_def str_int_def str_nat.simps graph_item_url_def
        example_self_def)
    done
  from first_chunk_refused [OF 1 2 3 4 5 6 7 8 9 10 11 12]
  have a: "\<not> fst ?r"
    and b: "fst (snd ?r) = example_self\<lparr>stats := (stats example_self)\<lparr>failed := failed (stats example_self) + 1\<rparr>\<rparr>"
    by blast+
  have "stats (fst (snd ?r)) = \<lparr>total_media = 0, transferred = 0, failed = 1, skipped = 0, total_size = 0\<rparr>"
    unfolding b by (simp add: example_self_def)
  with a log show ?thesis by blast
qed


lemma direct_upload_result:
  "direct_upload env self u r log
     = (if broken r then (Inl RequestException, self, log)
        else (case sp_put env u (body r) of
                Inl e \<Rightarrow> (Inl e, self, log @ [SpPut u (body r)])
              | Inr st \<Rightarrow>
                  if st = 200 \<or> st = 201
                  then (Inr True, count_transferred self (int (length (body r))),
                        log @ [SpPut u (body r)])
                  else (Inr False, count_failed self, log @ [SpPut u (body r)])))"
  by (simp add: direct_upload_def content_def split: sum.splits)

lemma streamed_append: "streamed (xs @ ys) = streamed xs @ streamed ys"
  by (induction xs rule: streamed.induct) auto

lemma upload_chunks_streamed:
  "upload_chunks env url fs chunks raises offset log = (Inr True, log')
     \<Longrightarrow> streamed log' = streamed log @ concat chunks"
proof (induction chunks arbitrary: offset log)
  case Nil
  then show ?case by (auto split: if_splits)
next
  case (Cons c cs)
  show ?case
  proof (cases "c = []")
    case True
    with Cons show ?thesis by simp
  next
    case False
    let ?log = "log @ [RequestsPut url (chunk_headers offset (int (length c)) fs) c]"
    from Cons.prems False
    have "upload_chunks env url fs cs raises (offset + int (length c)) ?log = (Inr True, log')"
      by (auto simp: Let_def split: sum.splits if_splits)
    from Cons.IH [OF this] show ?thesis by (simp add: streamed_append)
  qed
qed

text \<open>
  C10. When a chunked upload succeeds, \<open>total_size\<close> grows by the content length the
  source declared, and by nothing when it declared none, although the whole body was
  written to the upload session.
\<close>

theorem chunked_success_credits_declared_length:
  assumes "get_any env media_url = Inr resp"
      and "raise_for_status resp = Inr ()"
      and "reported_length (content_length_header resp) = Inr reported"
      and "\<not> (\<exists>n. reported = Some n \<and> n < 4 * 1024 * 1024)"
      and "sp_post env (graph_item_url self sharepoint_path filename @ '':/createUploadSession'')
             = Inr sr"
      and "session_status_code sr = 200"
      and "stream_media_to_sharepoint env self media_url sharepoint_path filename
             = (True, self', log)"
  shows "total_size (stats self')
           = total_size (stats self) + (case reported of None \<Rightarrow> 0 | Some n \<Rightarrow> n)
       \<and> (reported = None \<longrightarrow> total_size (stats self') = total_size (stats self))
       \<and> streamed log = body resp"
proof -
  let ?u = "graph_item_url self sharepoint_path filename @ '':/content''"
  let ?su = "graph_item_url self sharepoint_path filename @ '':/createUploadSession''"
  let ?fs = "case reported of None \<Rightarrow> 0 | Some n \<Rightarrow> n"
  have b: "stream_body env self media_url sharepoint_path filename
             = chunked_upload env self ?u ?su reported resp [KoboGet media_url]"
    by (rule stream_body_chunked [OF assms(1-4)])
  with assms(7) have c: "\<exists>l. chunked_upload env self ?u ?su reported resp [KoboGet media_url]
                            = (Inr True, self', log)"
    by (auto simp: stream_media_to_sharepoint_def split: sum.splits prod.splits)
  then obtain chunk_url where
    u: "bind_err (session_json sr) (\<lambda>j. subscript j ''uploadUrl'') = Inr chunk_url"
    using assms(5,6) by (auto simp: chunked_upload_def split: sum.splits)
  let ?blocks = "blocks_of (320 * 1024) (reads resp) (body resp)"
  obtain cres clog where
    up: "upload_chunks env chunk_url ?fs ?blocks (broken resp) 0
           ([KoboGet media_url] @ [SpPost ?su]) = (cres, clog)"
    by (cases "upload_chunks env chunk_url ?fs ?blocks (broken resp) 0
           ([KoboGet media_url] @ [SpPost ?su])") auto
  from c u up assms(5,6) have r: "cres = Inr True" "clog = log" "self' = count_transferred self ?fs"
    by (auto simp: chunked_upload_def iter_content_def Let_def split: sum.splits if_splits)
  from upload_chunks_streamed [OF up [unfolded r]] have "streamed log = body resp"
    by (simp add: concat_blocks_of)
  with r(3) show ?thesis by (auto simp: count_transferred_def)
qed


lemma example_chunked_run:
  "fst (stream_media_to_sharepoint
          (example_platforms\<lparr>kobo_get := \<lambda>url. Inr (example_response\<lparr>content_length_header := None\<rparr>)\<rparr>)
          example_self (JString ''http://kobo.example/a.jpg'') ''Main/Form/photo'' ''row1_a.jpg'')"
  apply (simp add: stream_media_to_sharepoint_def stream_body_def get_any_def
      raise_for_status_def example_response_def bind_err_def)
  apply (simp add: reported_length_def below_threshold_def)
  apply (simp add: chunked_upload_def example_platforms_def example_session_def bind_err_def
      subscript_def)
  apply (simp add: iter_content_def blocks_of.simps read_size_def)
  apply (simp add: put_any_def)
  done

theorem chunked_success_credits_declared_length_witness:
  "total_size (stats (fst (snd (stream_media_to_sharepoint
          (example_platforms\<lparr>kobo_get := \<lambda>url. Inr (example_response\<lparr>content_length_header := None\<rparr>)\<rparr>)
          example_self (JString ''http://kobo.example/a.jpg'') ''Main/Form/photo'' ''row1_a.jpg'')))) = 0
   \<and> streamed (snd (snd (stream_media_to_sharepoint
          (example_platforms\<lparr>kobo_get := \<lambda>url. Inr (example_response\<lparr>content_length_header := None\<rparr>)\<rparr>)
          example_self (JString ''http://kobo.example/a.jpg'') ''Main/Form/photo'' ''row1_a.jpg'')))
       = [1, 2, 3]"
proof -
  let ?env = "example_platforms\<lparr>kobo_get := \<lambda>url. Inr (example_response\<lparr>content_length_header := None\<rparr>)\<rparr>"
  let ?resp = "example_response\<lparr>content_length_header := None\<rparr>"
  let ?url = "JString ''http://kobo.example/a.jpg''"
  let ?r = "stream_media_to_sharepoint ?env example_self ?url ''Main/Form/photo'' ''row1_a.jpg''"
  have 1: "get_any ?env ?url = Inr ?resp" by (simp add: get_any_def)
  have 2: "raise_for_status ?resp = Inr ()"
    by (simp add: raise_for_status_def example_response_def)
  have 3: "reported_length (content_length_header ?resp) = Inr None"
    by (simp add: reported_length_def)
  have 4: "\<not> (\<exists>n. (None :: int option) = Some n \<and> n < 4 * 1024 * 1024)" by simp
  have 5: "sp_post ?env (graph_item_url example_self ''Main/Form/photo'' ''row1_a.jpg''
             @ '':/createUploadSession'') = Inr example_session"
    by (simp add: example_platforms_def)
  have 6: "session_status_code example_session = 200" by (simp add: example_session_def)
  have 7: "?r = (True, fst (snd ?r), snd (snd ?r))"
    using example_chunked_run by (simp add: prod_eq_iff)
  from chunked_success_credits_declared_length [OF 1 2 3 4 5 6 7]
  show ?thesis by (simp add: example_self_def example_response_def)
qed

lemma py_int_zero: "py_int ''0'' = Inr 0"
  by (simp add: py_int_def int_space_def valid_int_literal_def isdigit_def
      startswith_def int_of_digits_def)

lemma reported_length_zero: "reported_length (Some ''0'') = Inr (Some 0)"
  by (simp add: reported_length_def py_int_zero bind_err_def true_div_overflows_def)

lemma session_refused_degrades:
  assumes "get_any env media_url = Inr resp"
      and "raise_for_status resp = Inr ()"
      and "reported_length (content_length_header resp) = Inr reported"
      and "\<not> (\<exists>n. reported = Some n \<and> n < 4 * 1024 * 1024)"
      and "sp_post env (graph_item_url self sharepoint_path filename @ '':/createUploadSession'')
             = Inr sr"
      and "session_status_code sr \<noteq> 200"
      and "stream_media_to_sharepoint env self media_url sharepoint_path filename
             = (success, self', log)"
      and "stream_media_to_sharepoint
             (env\<lparr>kobo_get := \<lambda>url. Inr (resp\<lparr>content_length_header := Some ''0''\<rparr>)\<rparr>)
             self media_url sharepoint_path filename = (success0, self0, log0)"
  shows "success = success0 \<and> self' = self0
       \<and> (success \<longleftrightarrow>
            \<not> broken resp
            \<and> (\<exists>st. sp_put env (graph_item_url self sharepoint_path filename @ '':/content'')
                       (body resp) = Inr st \<and> (st = 200 \<or> st = 201)))
       \<and> (success \<longrightarrow>
            transferred (stats self') = transferred (stats self) + 1
            \<and> total_size (stats self') = total_size (stats self) + int (length (body resp)))
       \<and> (\<not> success \<longrightarrow> failed (stats self') = failed (stats self) + 1
                           \<and> total_size (stats self') = total_size (stats self))
       \<and> log = KoboGet media_url
               # SpPost (graph_item_url self sharepoint_path filename @ '':/createUploadSession'')
               # (if broken resp then []
                  else [SpPut (graph_item_url self sharepoint_path filename @ '':/content'')
                          (body resp)])"
proof -
  let ?u = "graph_item_url self sharepoint_path filename @ '':/content''"
  let ?su = "graph_item_url self sharepoint_path filename @ '':/createUploadSession''"
  let ?env0 = "env\<lparr>kobo_get := \<lambda>url. Inr (resp\<lparr>content_length_header := Some ''0''\<rparr>)\<rparr>"
  let ?resp0 = "resp\<lparr>content_length_header := Some ''0''\<rparr>"
  have b: "stream_body env self media_url sharepoint_path filename
             = direct_upload env self ?u resp ([KoboGet media_url] @ [SpPost ?su])"
    using assms(5,6) by (simp add: stream_body_chunked [OF assms(1-4)] chunked_upload_def)
  from assms(1) obtain url where url: "media_url = JString url"
    by (cases media_url) (auto simp: get_any_def)
  have g0: "get_any ?env0 media_url = Inr ?resp0" by (simp add: url get_any_def)
  have s0: "raise_for_status ?resp0 = Inr ()"
    using assms(2) by (simp add: raise_for_status_def split: if_splits)
  have r0: "reported_length (content_length_header ?resp0) = Inr (Some 0)"
    by (simp add: reported_length_zero)
  have b0: "stream_body ?env0 self media_url sharepoint_path filename
              = direct_upload ?env0 self ?u ?resp0 [KoboGet media_url]"
    using g0 s0 r0 by (simp add: stream_body_def bind_err_def below_threshold_def)
  from assms(7) b have 1: "(success, self', log)
      = (case direct_upload env self ?u resp ([KoboGet media_url] @ [SpPost ?su]) of
           (Inr ok, s, l) \<Rightarrow> (ok, s, l) | (Inl e, s, l) \<Rightarrow> (False, count_failed s, l))"
    by (simp add: stream_media_to_sharepoint_def)
  from assms(8) b0 have 2: "(success0, self0, log0)
      = (case direct_upload ?env0 self ?u ?resp0 [KoboGet media_url] of
           (Inr ok, s, l) \<Rightarrow> (ok, s, l) | (Inl e, s, l) \<Rightarrow> (False, count_failed s, l))"
    by (simp add: stream_media_to_sharepoint_def)
  show ?thesis
  proof (cases "broken resp")
    case True
    with 1 2 show ?thesis
      by (simp add: direct_upload_result count_failed_def)
  next
    case False
    show ?thesis
    proof (cases "sp_put env ?u (body resp)")
      case (Inl e)
      with False 1 2 show ?thesis
        by (simp add: direct_upload_result count_failed_def)
    next
      case (Inr st)
      show ?thesis
      proof (cases "st = 200 \<or> st = 201")
        case True
        with Inr False 1 2 show ?thesis
          by (simp add: direct_upload_result count_transferred_def)
      next
        case no: False
        with Inr False 1 2 show ?thesis
          by (simp add: direct_upload_result count_failed_def)
      qed
    qed
  qed
qed

lemma session_missing_fails:
  assumes "get_any env media_url = Inr resp"
      and "raise_for_status resp = Inr ()"
      and "reported_length (content_length_header resp) = Inr reported"
      and "\<not> (\<exists>n. reported = Some n \<and> n < 4 * 1024 * 1024)"
      and "(\<exists>e. sp_post env (graph_item_url self sharepoint_path filename
                                @ '':/createUploadSession'') = Inl e)
           \<or> (\<exists>sr. sp_post env (graph_item_url self sharepoint_path filename
                                   @ '':/createUploadSession'') = Inr sr
                  \<and> session_status_code sr = 200
                  \<and> ((\<exists>e. session_json sr = Inl e)
                     \<or> (\<exists>j e. session_json sr = Inr j \<and> subscript j ''uploadUrl'' = Inl e)))"
  shows "stream_media_to_sharepoint env self media_url sharepoint_path filename
           = (False, count_failed self,
              [KoboGet media_url,
               SpPost (graph_item_url self sharepoint_path filename @ '':/createUploadSession'')])"
  using assms(5)
  by (auto simp: stream_media_to_sharepoint_def stream_body_chunked [OF assms(1-4)]
      chunked_upload_def bind_err_def)

text \<open>
  C6 (amended). On the chunked path, when the request that opens the upload session is
  answered with a status other than 200, the transfer makes the full-buffer upload
  instead, whatever length was reported: it succeeds exactly when the body could be read
  and the destination answers that upload with 200 or 201, and what it returns and leaves
  in the statistics is what the same transfer returns and leaves when the source reports a
  length below the threshold (here 0) and the single-shot path is taken from the start.
  When the request that opens the session raises, or is answered with 200 but without a
  readable \<open>uploadUrl\<close>, there is no full-buffer upload: the transfer returns \<open>False\<close>
  after the session request, \<open>failed\<close> grows by one and nothing else changes.
\<close>

theorem session_failure_degrades:
  assumes "get_any env media_url = Inr resp"
      and "raise_for_status resp = Inr ()"
      and "reported_length (content_length_header resp) = Inr reported"
      and "\<not> (\<exists>n. reported = Some n \<and> n < 4 * 1024 * 1024)"
      and "stream_media_to_sharepoint env self media_url sharepoint_path filename
             = (success, self', log)"
      and "stream_media_to_sharepoint
             (env\<lparr>kobo_get := \<lambda>url. Inr (resp\<lparr>content_length_header := Some ''0''\<rparr>)\<rparr>)
             self media_url sharepoint_path filename = (success0, self0, log0)"
  shows "(sp_post env (graph_item_url self sharepoint_path filename @ '':/createUploadSession'')
            = Inr sr \<and> session_status_code sr \<noteq> 200 \<longrightarrow>
          success = success0 \<and> self' = self0
          \<and> (success \<longleftrightarrow>
               \<not> broken resp
               \<and> (\<exists>st. sp_put env (graph_item_url self sharepoint_path filename @ '':/content'')
                          (body resp) = Inr st \<and> (st = 200 \<or> st = 201)))
          \<and> (success \<longrightarrow>
               transferred (stats self') = transferred (stats self) + 1
               \<and> total_size (stats self') = total_size (stats self) + int (length (body resp)))
          \<and> (\<not> success \<longrightarrow> failed (stats self') = failed (stats self) + 1
                              \<and> total_size (stats self') = total_size (stats self))
          \<and> log = KoboGet media_url
                  # SpPost (graph_item_url self sharepoint_path filename
                             @ '':/createUploadSession'')
                  # (if broken resp then []
                     else [SpPut (graph_item_url self sharepoint_path filename @ '':/content'')
                             (body resp)]))
       \<and> ((\<exists>e. sp_post env (graph_item_url self sharepoint_path filename
                                @ '':/createUploadSession'') = Inl e)
           \<or> (\<exists>ok. sp_post env (graph_item_url self sharepoint_path filename
                                   @ '':/createUploadSession'') = Inr ok
                  \<and> session_status_code ok = 200
                  \<and> ((\<exists>e. session_json ok = Inl e)
                     \<or> (\<exists>j e. session_json ok = Inr j \<and> subscript j ''uploadUrl'' = Inl e)))
           \<longrightarrow>
          \<not> success
          \<and> self' = self\<lparr>stats := (stats self)\<lparr>failed := failed (stats self) + 1\<rparr>\<rparr>
          \<and> log = [KoboGet media_url,
                   SpPost (graph_item_url self sharepoint_path filename
                             @ '':/createUploadSession'')])"
    (is "(?refused \<longrightarrow> ?degraded) \<and> (?missing \<longrightarrow> ?outright)")
proof (rule conjI; rule impI)
  assume ?missing
  from session_missing_fails [OF assms(1-4) this] assms(5)
  show ?outright by (simp add: count_failed_def)
next
  assume ?refused
  then have p: "sp_post env (graph_item_url self sharepoint_path filename
                              @ '':/createUploadSession'') = Inr sr"
    and q: "session_status_code sr \<noteq> 200" by simp_all
  show ?degraded by (rule session_refused_degrades [OF assms(1-4) p q assms(5,6)])
qed

theorem session_failure_degrades_witness:
  "fst (stream_media_to_sharepoint
          (example_platforms\<lparr>kobo_get := \<lambda>url. Inr (example_response\<lparr>content_length_header := None\<rparr>),
                             sp_post := \<lambda>url. Inr (example_session\<lparr>session_status_code := 503\<rparr>)\<rparr>)
          example_self (JString ''http://kobo.example/a.jpg'') ''Main/Form/photo'' ''row1_a.jpg'')
   \<and> total_size (stats (fst (snd (stream_media_to_sharepoint
          (example_platforms\<lparr>kobo_get := \<lambda>url. Inr (example_response\<lparr>content_length_header := None\<rparr>),
                             sp_post := \<lambda>url. Inr (example_session\<lparr>session_status_code := 503\<rparr>)\<rparr>)
          example_self (JString ''http://kobo.example/a.jpg'') ''Main/Form/photo'' ''row1_a.jpg'')))) = 3
   \<and> snd (snd (stream_media_to_sharepoint
          (example_platforms\<lparr>kobo_get := \<lambda>url. Inr (example_response\<lparr>content_length_header := None\<rparr>),
                             sp_post := \<lambda>url. Inr (example_session\<lparr>session_status_code := 503\<rparr>)\<rparr>)
          example_self (JString ''http://kobo.example/a.jpg'') ''Main/Form/photo'' ''row1_a.jpg''))
     = [KoboGet (JString ''http://kobo.example/a.jpg''),
        SpPost ''https://graph.microsoft.com/v1.0/sites/site/drives/drive/root:/Main/Form/photo/row1_a.jpg:/createUploadSession'',
        SpPut ''https://graph.microsoft.com/v1.0/sites/site/drives/drive/root:/Main/Form/photo/row1_a.jpg:/content''
          [1, 2, 3]]
   \<and> \<not> fst (stream_media_to_sharepoint
          (example_platforms\<lparr>kobo_get := \<lambda>url. Inr (example_response\<lparr>content_length_header := None\<rparr>),
                             sp_post := \<lambda>url. Inr (example_session\<lparr>session_json := Inr (JObject [])\<rparr>)\<rparr>)
          example_self (JString ''http://kobo.example/a.jpg'') ''Main/Form/photo'' ''row1_a.jpg'')
   \<and> snd (snd (stream_media_to_sharepoint
          (example_platforms\<lparr>kobo_get := \<lambda>url. Inr (example_response\<lparr>content_length_header := None\<rparr>),
                             sp_post := \<lambda>url. Inr (example_session\<lparr>session_json := Inr (JObject [])\<rparr>)\<rparr>)
          example_self (JString ''http://kobo.example/a.jpg'') ''Main/Form/photo'' ''row1_a.jpg''))
     = [KoboGet (JString ''http://kobo.example/a.jpg''),
        SpPost ''https://graph.microsoft.com/v1.0/sites/site/drives/drive/root:/Main/Form/photo/row1_a.jpg:/createUploadSession'']"
proof -
  let ?resp = "example_response\<lparr>content_length_header := None\<rparr>"
  let ?env = "example_platforms\<lparr>kobo_get := \<lambda>url. Inr ?resp,
                             sp_post := \<lambda>url. Inr (example_session\<lparr>session_status_code := 503\<rparr>)\<rparr>"
  let ?bare = "example_platforms\<lparr>kobo_get := \<lambda>url. Inr ?resp,
                             sp_post := \<lambda>url. Inr (example_session\<lparr>session_json := Inr (JObject [])\<rparr>)\<rparr>"
  let ?url = "JString ''http://kobo.example/a.jpg''"
  let ?su = "graph_item_url example_self ''Main/Form/photo'' ''row1_a.jpg''
               @ '':/createUploadSession''"
  let ?r = "stream_media_to_sharepoint ?env example_self ?url ''Main/Form/photo'' ''row1_a.jpg''"
  let ?base = "stream_media_to_sharepoint
               (?env\<lparr>kobo_get := \<lambda>url. Inr (?resp\<lparr>content_length_header := Some ''0''\<rparr>)\<rparr>)
               example_self ?url ''Main/Form/photo'' ''row1_a.jpg''"
  let ?q = "stream_media_to_sharepoint ?bare example_self ?url ''Main/Form/photo'' ''row1_a.jpg''"
  let ?qbase = "stream_media_to_sharepoint
               (?bare\<lparr>kobo_get := \<lambda>url. Inr (?resp\<lparr>content_length_header := Some ''0''\<rparr>)\<rparr>)
               example_self ?url ''Main/Form/photo'' ''row1_a.jpg''"
  have 1: "get_any ?env ?url = Inr ?resp" by (simp add: get_any_def)
  have g1: "get_any ?bare ?url = Inr ?resp" by (simp add: get_any_def)
  have 2: "raise_for_status ?resp = Inr ()"
    by (simp add: raise_for_status_def example_response_def)
  have 3: "reported_length (content_length_header ?resp) = Inr None"
    by (simp add: reported_length_def)
  have 4: "\<not> (\<exists>n. (None :: int option) = Some n \<and> n < 4 * 1024 * 1024)" by simp
  have 5: "sp_post ?env ?su = Inr (example_session\<lparr>session_status_code := 503\<rparr>)
           \<and> session_status_code (example_session\<lparr>session_status_code := 503\<rparr>) \<noteq> 200"
    by simp
  have 6: "\<exists>ok. sp_post ?bare ?su = Inr ok \<and> session_status_code ok = 200
             \<and> ((\<exists>e. session_json ok = Inl e)
                \<or> (\<exists>j e. session_json ok = Inr j \<and> subscript j ''uploadUrl'' = Inl e))"
    by (simp add: example_session_def subscript_def)
  have 7: "?r = (fst ?r, fst (snd ?r), snd (snd ?r))" by simp
  have 8: "?base = (fst ?base, fst (snd ?base), snd (snd ?base))" by simp
  have q7: "?q = (fst ?q, fst (snd ?q), snd (snd ?q))" by simp
  have q8: "?qbase = (fst ?qbase, fst (snd ?qbase), snd (snd ?qbase))" by simp
  have put: "sp_put ?env (graph_item_url example_self ''Main/Form/photo'' ''row1_a.jpg'' @ '':/content'')
               (body ?resp) = Inr 201"
    by (simp add: example_platforms_def)
  have nb: "\<not> broken ?resp" by (simp add: example_response_def)
  from session_failure_degrades [OF 1 2 3 4 7 8,
      of "example_session\<lparr>session_status_code := 503\<rparr>"] 5 put nb
  have a: "fst ?r"
    and b: "fst ?r \<longrightarrow> total_size (stats (fst (snd ?r)))
                          = total_size (stats example_self) + int (length (body ?resp))"
    and c: "snd (snd ?r) = KoboGet ?url # SpPost ?su
               # (if broken ?resp then []
                  else [SpPut (graph_item_url example_self ''Main/Form/photo'' ''row1_a.jpg''
                                @ '':/content'') (body ?resp)])"
    by blast+
  from session_failure_degrades [OF g1 2 3 4 q7 q8] 6
  have d: "\<not> fst ?q" and e: "snd (snd ?q) = [KoboGet ?url, SpPost ?su]"
    by blast+
  from a b have "total_size (stats (fst (snd ?r))) = 3"
    by (simp add: example_self_def example_response_def)
  moreover from c nb have "snd (snd ?r) = [KoboGet ?url,
        SpPost ''https://graph.microsoft.com/v1.0/sites/site/drives/drive/root:/Main/Form/photo/row1_a.jpg:/createUploadSession'',
        SpPut ''https://graph.microsoft.com/v1.0/sites/site/drives/drive/root:/Main/Form/photo/row1_a.jpg:/content''
          [1, 2, 3]]"
    by (simp add: graph_item_url_def example_self_def example_response_def)
  moreover from e have "snd (snd ?q) = [KoboGet ?url,
        SpPost ''https://graph.microsoft.com/v1.0/sites/site/drives/drive/root:/Main/Form/photo/row1_a.jpg:/createUploadSession'']"
    by (simp add: graph_item_url_def example_self_def)
  ultimately show ?thesis using a d by blast
qed

text \<open>
  C6 as stated fails when the request that opens the session raises: the destination would
  have accepted a full-buffer upload, yet none is made and the transfer fails at once.
\<close>

theorem session_request_raises_counterexample:
  "sp_put (example_platforms\<lparr>kobo_get := \<lambda>url. Inr (example_response\<lparr>content_length_header := None\<rparr>),
                             sp_post := \<lambda>url. Inl RequestException\<rparr>)
     ''https://graph.microsoft.com/v1.0/sites/site/drives/drive/root:/Main/Form/photo/row1_a.jpg:/content''
     [1, 2, 3] = Inr 201
   \<and> stream_media_to_sharepoint
       (example_platforms\<lparr>kobo_get := \<lambda>url. Inr (example_response\<lparr>content_length_header := None\<rparr>),
                          sp_post := \<lambda>url. Inl RequestException\<rparr>)
       example_self (JString ''http://kobo.example/a.jpg'') ''Main/Form/photo'' ''row1_a.jpg''
     = (False,
        example_self\<lparr>stats := \<lparr>total_media = 0, transferred = 0, failed = 1, skipped = 0,
                                total_size = 0\<rparr>\<rparr>,
        [KoboGet (JString ''http://kobo.example/a.jpg''),
         SpPost ''https://graph.microsoft.com/v1.0/sites/site/drives/drive/root:/Main/Form/photo/row1_a.jpg:/createUploadSession''])"
  apply (simp add: stream_media_to_sharepoint_def stream_body_def get_any_def
      raise_for_status_def example_response_def bind_err_def)
  apply (simp add: reported_length_def below_threshold_def)
  apply (simp add: chunked_upload_def example_platforms_def count_failed_def example_self_def
      graph_item_url_def)
  done

section \<open>Properties of the naming format flag\<close>

lemma is_file_already_uploaded_format:
  "current_form_naming_format a = current_form_naming_format b \<Longrightarrow>
     is_file_already_uploaded a filename form_name existing_files
       = is_file_already_uploaded b filename form_name existing_files"
  unfolding is_file_already_uploaded_def by (simp only:)

lemma create_filename_any_self:
  "fst (create_filename a row_data row_num base dc tc) = fst (create_filename b row_data row_num base dc tc)
   \<and> current_form_naming_format (snd (create_filename a row_data row_num base dc tc))
       = current_form_naming_format (snd (create_filename b row_data row_num base dc tc))"
  by (simp add: create_filename_def split: sum.splits prod.splits)

lemma create_filename_stats:
  "stats (snd (create_filename a row_data row_num base dc tc)) = stats a"
  by (simp add: create_filename_def split: sum.splits prod.splits)

lemma stream_keeps_format:
  assumes "stream_media_to_sharepoint env self media_url path filename = (success, self', log)"
  shows "current_form_naming_format self' = current_form_naming_format self"
proof -
  obtain res s l where b: "stream_body env self media_url path filename = (res, s, l)"
    by (cases "stream_body env self media_url path filename") auto
  from stream_body_counts [OF b] assms b show ?thesis
    by (auto simp: stream_media_to_sharepoint_def count_transferred_def count_failed_def
        split: sum.splits)
qed

text \<open>
  C2 (amended). The flag is not fixed for the form: every filename derivation writes it.
  For each attachment whose suggested name can be sanitized, the duplicate check is made
  under the format that the derivation of that attachment's own filename has just
  recorded, whatever the flag was before (in particular whatever the probe on the first
  submission had set), and that format is what the flag holds after the attachment.
\<close>

theorem transfer_media_uses_derived_scheme:
  assumes "sanitize_filename (m_filename media) = Inr base_name"
      and "create_filename any_self submission row_num base_name ''Date'' ''Receipt_Type''
             = (filename, derived)"
      and "transfer_media env existing_files submission row_num safe_form_name col_folder
             (self, fs, log) media = (err, self', fs', log')"
  shows "err = None
       \<and> current_form_naming_format self' = current_form_naming_format derived
       \<and> (form_skipped fs' = form_skipped fs + 1 \<longleftrightarrow>
            existing_files \<noteq> []
            \<and> is_file_already_uploaded derived filename safe_form_name existing_files)"
proof -
  let ?counted = "self\<lparr>stats := (stats self)\<lparr>total_media := total_media (stats self) + 1\<rparr>\<rparr>"
  obtain name named where
    c: "create_filename ?counted submission row_num base_name ''Date'' ''Receipt_Type''
          = (name, named)"
    by (cases "create_filename ?counted submission row_num base_name ''Date'' ''Receipt_Type''")
  from create_filename_any_self [of ?counted submission row_num base_name "''Date''"
      "''Receipt_Type''" any_self] c assms(2)
  have n: "name = filename"
    and f: "current_form_naming_format named = current_form_naming_format derived"
    by simp_all
  have d: "is_file_already_uploaded named filename safe_form_name existing_files
             = is_file_already_uploaded derived filename safe_form_name existing_files"
    by (rule is_file_already_uploaded_format [OF f])
  show ?thesis
  proof (cases "existing_files \<noteq> []
                 \<and> is_file_already_uploaded derived filename safe_form_name existing_files")
    case True
    with assms(1,3) c n d f show ?thesis
      by (auto simp: transfer_media_def Let_def)
  next
    case False
    obtain ok s l where
      st: "stream_media_to_sharepoint env named (m_url media) col_folder filename = (ok, s, l)"
      by (cases "stream_media_to_sharepoint env named (m_url media) col_folder filename") auto
    from stream_keeps_format [OF st] f
    have "current_form_naming_format s = current_form_naming_format derived" by simp
    with False assms(1,3) c n d st show ?thesis
      by (auto simp: transfer_media_def Let_def split: if_splits)
  qed
qed


theorem transfer_media_uses_derived_scheme_witness:
  "current_form_naming_format (fst (snd (transfer_media example_platforms example_catalog
       (example_submissions ! 1) 2 ''Receipts'' ''Main/Receipts/photo''
       (example_self\<lparr>current_form_naming_format := Custom\<rparr>,
        \<lparr>processed = 1, form_failed = 0, form_skipped = 0\<rparr>, [])
       \<lparr>m_url = JString ''http://kobo.example/b.jpg'', m_filename = JString ''b.jpg''\<rparr>)))
     = Fallback
   \<and> form_skipped (fst (snd (snd (transfer_media example_platforms example_catalog
       (example_submissions ! 1) 2 ''Receipts'' ''Main/Receipts/photo''
       (example_self\<lparr>current_form_naming_format := Custom\<rparr>,
        \<lparr>processed = 1, form_failed = 0, form_skipped = 0\<rparr>, [])
       \<lparr>m_url = JString ''http://kobo.example/b.jpg'', m_filename = JString ''b.jpg''\<rparr>))))
     = 1"
proof -
  let ?media = "\<lparr>m_url = JString ''http://kobo.example/b.jpg'', m_filename = JString ''b.jpg''\<rparr>"
  let ?fs = "\<lparr>processed = 1, form_failed = 0, form_skipped = 0\<rparr>"
  let ?t = "transfer_media example_platforms example_catalog
       (example_submissions ! 1) 2 ''Receipts'' ''Main/Receipts/photo''
       (example_self\<lparr>current_form_naming_format := Custom\<rparr>, ?fs, []) ?media"
  have 1: "sanitize_filename (m_filename ?media) = Inr ''b.jpg''"
    by (simp add: sanitize_filename_def word_char_def isalnum_def)
  have 2: "create_filename example_self (example_submissions ! 1) 2 ''b.jpg'' ''Date'' ''Receipt_Type''
             = (''row2_b.jpg'', example_self\<lparr>current_form_naming_format := Fallback\<rparr>)"
    by code_simp
  have 3: "?t = (fst ?t, fst (snd ?t), fst (snd (snd ?t)), snd (snd (snd ?t)))" by simp
  have 4: "example_catalog \<noteq> []
           \<and> is_file_already_uploaded (example_self\<lparr>current_form_naming_format := Fallback\<rparr>)
                 ''row2_b.jpg'' ''Receipts'' example_catalog"
    by (simp add: example_catalog_def is_file_already_uploaded_def example_self_def
        row_prefix_def bind_err_def index_list_def startswith_def)
  from transfer_media_uses_derived_scheme [OF 1 2 3] 4 show ?thesis by simp
qed

text \<open>
  C2 as stated fails on a form whose first submission has a date and a category and whose
  second has no date. The probe leaves the flag at custom; under the custom format
  \<open>row2_b.jpg\<close> is no duplicate of the catalogued \<open>row2_old.png\<close>; yet the second
  attachment is skipped (never fetched), because its check ran under the fallback format
  that its own derivation had recorded.
\<close>

theorem form_scheme_not_fixed_counterexample:
  "current_form_naming_format
     (snd (create_filename example_self (example_submissions ! 0) 1 ''test.jpg''
             ''Date'' ''Receipt_Type'')) = Custom
   \<and> \<not> is_file_already_uploaded (example_self\<lparr>current_form_naming_format := Custom\<rparr>)
         ''row2_b.jpg'' ''Receipts'' example_catalog
   \<and> process_form_media example_platforms example_self ''uid'' ''Receipts'' ''Main''
       example_catalog
     = (example_self\<lparr>stats := \<lparr>total_media = 2, transferred = 1, failed = 0, skipped = 1,
                                total_size = 3\<rparr>\<rparr>,
        \<lparr>processed = 1, form_failed = 0, form_skipped = 1\<rparr>,
        [KoboGet (JString ''http://kobo.example/a.jpg''),
         SpPut ''https://graph.microsoft.com/v1.0/sites/site/drives/drive/root:/Main/Receipts/photo/2025-06-26_Food_1.jpg:/content''
           [1, 2, 3]])"
  by code_simp

section \<open>Properties of the attachment parser\<close>














section \<open>Properties of the choice of download URL\<close>

lemma first_url_object:
  "first_url (JObject kvs) keys
     = Inr (case filter (has_nonempty kvs) keys of [] \<Rightarrow> None | key # _ \<Rightarrow> map_of kvs key)"
  by (induction keys) (auto simp: has_nonempty_def split: option.splits)

lemma get_download_url_object: "get_download_url (JObject kvs) = Inr (priority_url kvs)"
  unfolding get_download_url_def first_url_object
  by (simp add: url_keys_def priority_url_def)

lemma priority_url_truthy: "priority_url kvs = Some u \<Longrightarrow> truthy u"
  by (auto simp: priority_url_def has_nonempty_def split: if_splits option.splits)

lemma attachment_media_objects:
  "attachment_media (map JObject dicts) row_num
     = Inr (concat (map (\<lambda>kvs. case priority_url kvs of
                                None \<Rightarrow> []
                              | Some u \<Rightarrow>
                                  [\<lparr>m_url = u,
                                    m_filename = dict_get kvs ''filename''
                                                   (JString (''media_'' @ str_int row_num))\<rparr>])
                        dicts))"
proof (induction dicts)
  case Nil
  show ?case by simp
next
  case (Cons kvs rest)
  show ?case
  proof (cases "priority_url kvs")
    case None
    with Cons show ?thesis by (simp add: get_download_url_object bind_err_def)
  next
    case (Some u)
    with Cons priority_url_truthy [OF Some] show ?thesis
      by (simp add: get_download_url_object bind_err_def att_get_def)
  qed
qed

lemma example_field_parsed:
  \<open>parse_attachments ''[{"download_url":"http://x/a.jpg"}]''
     = Inr [JObject [(''download_url'', JString ''http://x/a.jpg'')]]\<close>
  by code_simp

lemma example_field_marked:
  \<open>looks_like_media ''[{"download_url":"http://x/a.jpg"}]''
   \<and> contains ''[{"download_url":"http://x/a.jpg"}]'' ''[''\<close>
  by code_simp

lemma scanned_media_total:
  "scanned_media urls row_num
     = Inr (map (\<lambda>url. \<lparr>m_url = JString url,
                          m_filename =
                            JString (if hd (split_on CHR ''?'' (last (split_on CHR ''/'' url))) = []
                                     then ''media_'' @ str_int row_num
                                     else hd (split_on CHR ''?'' (last (split_on CHR ''/'' url))))\<rparr>)
              (filter (\<lambda>url. list_ex (\<lambda>ext. contains (lower url) ext)
                                [''.jpg'', ''.jpeg'', ''.png'', ''.pdf'', ''.mp4''])
                 urls))"
proof (induction urls)
  case Nil
  show ?case by simp
next
  case (Cons url rest)
  have a: "index_list (split_on CHR ''/'' url) (- 1) = Inr (last (split_on CHR ''/'' url))"
    by (rule index_list_last) (rule split_on_nonempty)
  have b: "index_list (split_on CHR ''?'' (last (split_on CHR ''/'' url))) 0
             = Inr (hd (split_on CHR ''?'' (last (split_on CHR ''/'' url))))"
    by (rule index_list_first) (rule split_on_nonempty)
  show ?case
    unfolding scanned_media.simps Cons.IH
    by (simp add: a b bind_err_def)
qed

lemma field_media_objects:
  assumes "s \<noteq> []" and "looks_like_media s"
      and "contains s ''['' \<or> contains s ''{''"
      and "parse_attachments s = Inr (map JObject dicts)"
  shows "field_media (JString s) row_num
           = (if concat (map (\<lambda>kvs. case priority_url kvs of
                                       None \<Rightarrow> []
                                     | Some u \<Rightarrow>
                                         [\<lparr>m_url = u,
                                           m_filename = dict_get kvs ''filename''
                                                          (JString (''media_'' @ str_int row_num))\<rparr>])
                               dicts) = []
                 \<and> contains s ''http''
              then scanned_media (findall_urls s) row_num
              else Inr (concat (map (\<lambda>kvs. case priority_url kvs of
                                       None \<Rightarrow> []
                                     | Some u \<Rightarrow>
                                         [\<lparr>m_url = u,
                                           m_filename = dict_get kvs ''filename''
                                                          (JString (''media_'' @ str_int row_num))\<rparr>])
                               dicts)))"
  using assms
  by (simp add: field_media_def py_str_def bind_err_def attachment_media_objects Let_def)

lemma example_pair_parsed:
  \<open>parse_attachments ''[{"download_url":""},{"download_medium_url":"http://x/m.png","filename":"m.png"}]''
     = Inr (map JObject [[(''download_url'', JString [])],
                         [(''download_medium_url'', JString ''http://x/m.png''),
                          (''filename'', JString ''m.png'')]])\<close>
  by code_simp

lemma example_pair_marked:
  \<open>looks_like_media ''[{"download_url":""},{"download_medium_url":"http://x/m.png","filename":"m.png"}]''
   \<and> contains ''[{"download_url":""},{"download_medium_url":"http://x/m.png","filename":"m.png"}]'' ''[''\<close>
  by code_simp

text \<open>
  C8 (amended). The column value \<open>[{"download_url":"http://x/a.jpg"}]\<close> yields exactly
  one media entry, with that URL. The URL taken from an element that is an object is the
  value of \<open>download_large_url\<close> if the element has it non-empty, else that of
  \<open>download_url\<close>, else that of \<open>download_medium_url\<close>, and from a parsed list of
  objects the structured entries are those of the elements that have such a URL, in order,
  an element with none of the three contributing none. These are the entries of the
  column, unless there is none at all and the text of the column contains \<open>http\<close>: then
  the text is scanned for URLs, and each URL found that contains one of \<open>.jpg\<close>,
  \<open>.jpeg\<close>, \<open>.png\<close>, \<open>.pdf\<close>, \<open>.mp4\<close> gives an entry, named after its last path
  segment.
\<close>

theorem download_url_priority:
  \<open>field_media (JString ''[{"download_url":"http://x/a.jpg"}]'') row_num
     = Inr [\<lparr>m_url = JString ''http://x/a.jpg'',
              m_filename = JString (''media_'' @ str_int row_num)\<rparr>]
   \<and> get_download_url (JObject kvs) = Inr (priority_url kvs)
   \<and> attachment_media (map JObject dicts) row_num
       = Inr (concat (map (\<lambda>kvs. case priority_url kvs of
                                  None \<Rightarrow> []
                                | Some u \<Rightarrow>
                                    [\<lparr>m_url = u,
                                      m_filename = dict_get kvs ''filename''
                                                     (JString (''media_'' @ str_int row_num))\<rparr>])
                          dicts))
   \<and> (s \<noteq> [] \<and> looks_like_media s \<and> (contains s ''['' \<or> contains s ''{'')
        \<and> parse_attachments s = Inr (map JObject dicts) \<longrightarrow>
      field_media (JString s) row_num
        = (if concat (map (\<lambda>kvs. case priority_url kvs of
                                    None \<Rightarrow> []
                                  | Some u \<Rightarrow>
                                      [\<lparr>m_url = u,
                                        m_filename = dict_get kvs ''filename''
                                                       (JString (''media_'' @ str_int row_num))\<rparr>])
                            dicts) = []
              \<and> contains s ''http''
           then scanned_media (findall_urls s) row_num
           else Inr (concat (map (\<lambda>kvs. case priority_url kvs of
                                    None \<Rightarrow> []
                                  | Some u \<Rightarrow>
                                      [\<lparr>m_url = u,
                                        m_filename = dict_get kvs ''filename''
                                                       (JString (''media_'' @ str_int row_num))\<rparr>])
                            dicts))))
   \<and> scanned_media urls row_num
       = Inr (map (\<lambda>url. \<lparr>m_url = JString url,
                            m_filename =
                              JString (if hd (split_on CHR ''?'' (last (split_on CHR ''/'' url))) = []
                                       then ''media_'' @ str_int row_num
                                       else hd (split_on CHR ''?'' (last (split_on CHR ''/'' url))))\<rparr>)
                (filter (\<lambda>url. list_ex (\<lambda>ext. contains (lower url) ext)
                                  [''.jpg'', ''.jpeg'', ''.png'', ''.pdf'', ''.mp4''])
                   urls))\<close>
proof -
  let ?kvs = "[(''download_url'', JString ''http://x/a.jpg'')]"
  have "attachment_media (map JObject [?kvs]) row_num
          = Inr [\<lparr>m_url = JString ''http://x/a.jpg'',
                   m_filename = JString (''media_'' @ str_int row_num)\<rparr>]"
    unfolding attachment_media_objects
    by (simp add: priority_url_def has_nonempty_def dict_get_def)
  then have 1: \<open>field_media (JString ''[{"download_url":"http://x/a.jpg"}]'') row_num
     = Inr [\<lparr>m_url = JString ''http://x/a.jpg'',
              m_filename = JString (''media_'' @ str_int row_num)\<rparr>]\<close>
    using example_field_parsed example_field_marked
    by (simp add: field_media_def py_str_def bind_err_def)
  note 2 = get_download_url_object [of kvs]
  note 3 = attachment_media_objects [of dicts row_num]
  note 4 = field_media_objects [of s dicts row_num]
  note 5 = scanned_media_total [of urls row_num]
  show ?thesis
    apply (intro conjI impI)
    subgoal using 1 .
    subgoal using 2 .
    subgoal using 3 .
    subgoal using 4 by blast
    subgoal using 5 .
    done
qed

theorem download_url_priority_witness:
  \<open>get_download_url (JObject [(''download_url'', JString ''d''),
                              (''download_large_url'', JString []),
                              (''download_medium_url'', JString ''m'')])
     = Inr (Some (JString ''d''))
   \<and> attachment_media [JObject [(''download_medium_url'', JString ''m''),
                                (''filename'', JString ''a.png''),
                                (''download_large_url'', JString ''l'')],
                       JObject [(''note'', JString ''none'')]] 5
     = Inr [\<lparr>m_url = JString ''l'', m_filename = JString ''a.png''\<rparr>]
   \<and> field_media
       (JString ''[{"download_url":""},{"download_medium_url":"http://x/m.png","filename":"m.png"}]'') 5
     = Inr [\<lparr>m_url = JString ''http://x/m.png'', m_filename = JString ''m.png''\<rparr>]
   \<and> scanned_media [''http://x/a.jpg?size=1'', ''http://x/readme.txt''] 5
     = Inr [\<lparr>m_url = JString ''http://x/a.jpg?size=1'', m_filename = JString ''a.jpg''\<rparr>]\<close>
proof -
  let ?s = \<open>''[{"download_url":""},{"download_medium_url":"http://x/m.png","filename":"m.png"}]''\<close>
  let ?dicts = "[[(''download_url'', JString [])],
                 [(''download_medium_url'', JString ''http://x/m.png''),
                  (''filename'', JString ''m.png'')]]"
  have ne: "?s \<noteq> []" by simp
  have filt: "filter (\<lambda>url. list_ex (\<lambda>ext. contains (lower url) ext)
                               [''.jpg'', ''.jpeg'', ''.png'', ''.pdf'', ''.mp4''])
                [''http://x/a.jpg?size=1'', ''http://x/readme.txt'']
              = [''http://x/a.jpg?size=1'']"
    by code_simp
  have entry:
    "(if hd (split_on CHR ''?'' (last (split_on CHR ''/'' ''http://x/a.jpg?size=1''))) = []
      then ''media_'' @ str_int 5
      else hd (split_on CHR ''?'' (last (split_on CHR ''/'' ''http://x/a.jpg?size=1''))))
     = ''a.jpg''"
    by code_simp
  from download_url_priority [of 5
      "[(''download_url'', JString ''d''), (''download_large_url'', JString []),
        (''download_medium_url'', JString ''m'')]"
      "[[(''download_medium_url'', JString ''m''), (''filename'', JString ''a.png''),
         (''download_large_url'', JString ''l'')],
        [(''note'', JString ''none'')]]"]
  have a: "get_download_url (JObject [(''download_url'', JString ''d''),
                              (''download_large_url'', JString []),
                              (''download_medium_url'', JString ''m'')])
     = Inr (Some (JString ''d''))"
    and b: "attachment_media [JObject [(''download_medium_url'', JString ''m''),
                                (''filename'', JString ''a.png''),
                                (''download_large_url'', JString ''l'')],
                       JObject [(''note'', JString ''none'')]] 5
     = Inr [\<lparr>m_url = JString ''l'', m_filename = JString ''a.png''\<rparr>]"
    by (simp_all add: priority_url_def has_nonempty_def dict_get_def)
  note w = download_url_priority [of 5 "[]" ?dicts ?s
      "[''http://x/a.jpg?size=1'', ''http://x/readme.txt'']"]
  note w4 = w [THEN conjunct2, THEN conjunct2, THEN conjunct2, THEN conjunct1]
  note w5 = w [THEN conjunct2, THEN conjunct2, THEN conjunct2, THEN conjunct2]
  have hyp: "?s \<noteq> [] \<and> looks_like_media ?s \<and> (contains ?s ''['' \<or> contains ?s ''{'')
               \<and> parse_attachments ?s = Inr (map JObject ?dicts)"
    using ne example_pair_parsed example_pair_marked by blast
  from w4 [THEN mp, OF hyp]
  have c: "field_media (JString ?s) 5
     = Inr [\<lparr>m_url = JString ''http://x/m.png'', m_filename = JString ''m.png''\<rparr>]"
    by (simp add: priority_url_def has_nonempty_def dict_get_def)
  note d = w5 [unfolded filt list.map entry]
  from a b c d show ?thesis by blast
qed

text \<open>
  C8 as stated fails at the level of the column: an element with none of the three keys
  still yields an entry, through the scan of the text.
\<close>

theorem unlisted_key_scanned_counterexample:
  \<open>parse_attachments ''[{"download_small_url":"http://x/a.jpg"}]''
     = Inr [JObject [(''download_small_url'', JString ''http://x/a.jpg'')]]
   \<and> priority_url [(''download_small_url'', JString ''http://x/a.jpg'')] = None
   \<and> field_media (JString ''[{"download_small_url":"http://x/a.jpg"}]'') 1
       = Inr [\<lparr>m_url = JString ''http://x/a.jpg'', m_filename = JString ''a.jpg''\<rparr>]\<close>
  by code_simp

section \<open>Properties of the derived filename\<close>

lemma isdigit_isalnum: "isdigit c \<Longrightarrow> isalnum c"
  by (auto simp: isdigit_def isalnum_def Let_def)

lemma digit_char_isdigit: "d < 10 \<Longrightarrow> isdigit (''0123456789'' ! d)"
proof -
  assume "d < 10"
  then have "d = 0 \<or> d = 1 \<or> d = 2 \<or> d = 3 \<or> d = 4 \<or> d = 5 \<or> d = 6 \<or> d = 7 \<or> d = 8 \<or> d = 9"
    by arith
  then show ?thesis by (elim disjE) (simp_all add: isdigit_def)
qed

lemma str_nat_digits: "\<forall>c \<in> set (str_nat n). isdigit c"
proof (induction n rule: str_nat.induct)
  case (1 n)
  show ?case
  proof (cases "n < 10")
    case True
    then show ?thesis by (subst str_nat.simps) (simp add: digit_char_isdigit)
  next
    case False
    with 1 show ?thesis by (subst str_nat.simps) (simp add: digit_char_isdigit)
  qed
qed

lemma str_nat_length:
  "n < 10 \<Longrightarrow> length (str_nat n) = 1"
  "n < 100 \<Longrightarrow> length (str_nat n) \<le> 2"
  "n < 10000 \<Longrightarrow> length (str_nat n) \<le> 4"
proof -
  show 1: "length (str_nat n) = 1" if "n < 10" for n
    using that by (subst str_nat.simps) simp
  show 2: "length (str_nat n) \<le> 2" if "n < 100" for n
  proof (cases "n < 10")
    case True
    with 1 show ?thesis by simp
  next
    case False
    from that have "n div 10 < 10" by simp
    from 1 [OF this] False show ?thesis by (subst str_nat.simps) simp
  qed
  have 3: "length (str_nat n) \<le> 3" if "n < 1000" for n
  proof (cases "n < 10")
    case True
    with 1 show ?thesis by simp
  next
    case False
    from that have "n div 10 < 100" by simp
    from 2 [OF this] False show ?thesis by (subst str_nat.simps) simp
  qed
  show "length (str_nat n) \<le> 4" if "n < 10000"
  proof (cases "n < 10")
    case True
    with 1 show ?thesis by simp
  next
    case False
    from that have "n div 10 < 1000" by simp
    from 3 [OF this] False show ?thesis by (subst str_nat.simps) simp
  qed
qed

lemma str_int_safe: "\<forall>c \<in> set (str_int i). safe_char c"
  using str_nat_digits
  by (auto simp: str_int_def safe_char_def dest: isdigit_isalnum)

lemma zero_pad_digits: "\<forall>c \<in> set (zero_pad w n). isdigit c"
  using str_nat_digits by (auto simp: zero_pad_def isdigit_def)

lemma zero_pad_length: "length (str_nat n) \<le> w \<Longrightarrow> length (zero_pad w n) = w"
  by (simp add: zero_pad_def)

lemma digit_value_le: "isdigit c \<Longrightarrow> digit_value c \<le> 9"
  by (auto simp: isdigit_def digit_value_def Let_def)

lemma two_or_one_bound: "two_or_one two one s = Some (v, r) \<Longrightarrow> v \<le> 99"
proof -
  assume a: "two_or_one two one s = Some (v, r)"
  then obtain x xs where s: "s = x # xs" and dx: "isdigit x"
    by (cases s) (auto simp: two_or_one_def split: if_splits)
  show ?thesis
  proof (cases xs)
    case Nil
    with a s dx digit_value_le [OF dx] show ?thesis
      by (auto simp: two_or_one_def split: if_splits)
  next
    case (Cons y ys)
    show ?thesis
    proof (cases "isdigit y \<and> two (digit_value x) (digit_value y)")
      case True
      with a s dx Cons have "v = 10 * digit_value x + digit_value y"
        by (auto simp: two_or_one_def)
      with digit_value_le [OF dx] True digit_value_le [of y] show ?thesis by simp
    next
      case False
      with a s dx Cons have "v = digit_value x"
        by (auto simp: two_or_one_def split: if_splits)
      with digit_value_le [OF dx] show ?thesis by simp
    qed
  qed
qed

lemma int_of_digits4:
  assumes "length s \<ge> 4" and "list_all isdigit (take 4 s)"
  shows "nat (int_of_digits (take 4 s)) \<le> 9999"
proof -
  from assms(1) obtain a b c d r where s: "s = a # b # c # d # r"
    by (cases s; cases "tl s"; cases "tl (tl s)"; cases "tl (tl (tl s))") auto
  with assms(2) have "isdigit a" "isdigit b" "isdigit c" "isdigit d" by simp_all
  then have "(of_char a :: nat) \<le> 57" "(of_char b :: nat) \<le> 57"
    "(of_char c :: nat) \<le> 57" "(of_char d :: nat) \<le> 57"
    by (auto simp: isdigit_def Let_def)
  then have "int (of_char a) \<le> 57" "int (of_char b) \<le> 57"
    "int (of_char c) \<le> 57" "int (of_char d) \<le> 57"
    by linarith+
  then have "(of_char a :: int) \<le> 57" "(of_char b :: int) \<le> 57"
    "(of_char c :: int) \<le> 57" "(of_char d :: int) \<le> 57"
    by (simp_all only: of_nat_of_char)
  with s show ?thesis by (simp add: int_of_digits_def)
qed

lemma scan_directive_bound:
  assumes "scan_directive d s = Some (v, r)"
  shows "d = Year \<longrightarrow> v \<le> 9999" and "d = Month \<or> d = Day \<longrightarrow> v \<le> 99"
proof -
  show "d = Year \<longrightarrow> v \<le> 9999"
    using assms int_of_digits4 [of s] by (auto simp: scan_directive_def split: if_splits)
  show "d = Month \<or> d = Day \<longrightarrow> v \<le> 99"
  proof
    assume "d = Month \<or> d = Day"
    then show "v \<le> 99"
    proof
      assume "d = Month"
      with assms show ?thesis by (auto simp: scan_directive_def dest: two_or_one_bound)
    next
      assume d: "d = Day"
      show ?thesis
      proof (cases "two_or_one (\<lambda>a b. (a = 3 \<and> b \<le> 1) \<or> a = 1 \<or> a = 2 \<or> (a = 0 \<and> 1 \<le> b))
                  (\<lambda>a. 1 \<le> a) s")
        case (Some p)
        with assms d have "two_or_one (\<lambda>a b. (a = 3 \<and> b \<le> 1) \<or> a = 1 \<or> a = 2 \<or> (a = 0 \<and> 1 \<le> b))
                  (\<lambda>a. 1 \<le> a) s = Some (v, r)"
          by (simp add: scan_directive_def)
        then show ?thesis by (rule two_or_one_bound)
      next
        case None
        with assms d show ?thesis
          by (auto simp: scan_directive_def split: list.splits if_splits dest: digit_value_le)
      qed
    qed
  qed
qed

lemma scan_format_bound:
  "scan_format fmt s = Some parsed \<Longrightarrow> (d, v) \<in> set parsed \<Longrightarrow>
     (d = Year \<longrightarrow> v \<le> 9999) \<and> (d = Month \<or> d = Day \<longrightarrow> v \<le> 99)"
proof (induction fmt arbitrary: s parsed)
  case Nil
  then show ?case by (simp split: if_splits)
next
  case (Cons x fmt)
  from Cons.prems(1) obtain w rest tail where
    sd: "scan_directive x s = Some (w, rest)" and sf: "scan_format fmt rest = Some tail"
    and p: "parsed = (x, w) # tail"
    by (auto split: option.splits)
  from Cons.prems(2) p have "(d, v) = (x, w) \<or> (d, v) \<in> set tail" by simp
  then show ?case
  proof
    assume "(d, v) = (x, w)"
    with scan_directive_bound [OF sd] show ?thesis by simp
  next
    assume "(d, v) \<in> set tail"
    from Cons.IH [OF sf this] show ?thesis .
  qed
qed

lemma field_or_bound:
  assumes "scan_format fmt s = Some parsed"
  shows "field_or parsed Year 1900 \<le> 9999" and "field_or parsed Month 1 \<le> 99"
    and "field_or parsed Day 1 \<le> 99"
proof -
  have *: "(d = Year \<longrightarrow> v \<le> 9999) \<and> (d = Month \<or> d = Day \<longrightarrow> v \<le> 99)"
    if "map_of parsed d = Some v" for d v
    using scan_format_bound [OF assms map_of_SomeD [OF that]] .
  show "field_or parsed Year 1900 \<le> 9999"
    using * [of Year] by (auto simp: field_or_def split: option.splits)
  show "field_or parsed Month 1 \<le> 99"
    using * [of Month] by (auto simp: field_or_def split: option.splits)
  show "field_or parsed Day 1 \<le> 99"
    using * [of Day] by (auto simp: field_or_def split: option.splits)
qed

lemma strptime_bound:
  "strptime s fmt = Inr (y, m, d) \<Longrightarrow> y \<le> 9999 \<and> m \<le> 99 \<and> d \<le> 99"
  using field_or_bound [of fmt s]
  by (auto simp: strptime_def Let_def split: option.splits if_splits)

lemma list_all_digits: "list_all isdigit xs = (\<forall>c \<in> set xs. isdigit c)"
  by (simp add: list_all_iff)

lemma dash_safe: "safe_char CHR ''-''" "safe_char CHR ''_''" "safe_char CHR ''.''"
  by (simp_all add: safe_char_def)

lemma isdigit_safe: "isdigit c \<Longrightarrow> safe_char c"
  by (simp add: safe_char_def isdigit_isalnum)

lemma str_nat_nonempty: "str_nat n \<noteq> []"
  by (subst str_nat.simps) simp

lemma date_text_intro:
  assumes "\<forall>c \<in> set y. isdigit c" and "1 \<le> length y" and "length y \<le> 4"
      and "length m = 2" and "\<forall>c \<in> set m. isdigit c"
      and "length d = 2" and "\<forall>c \<in> set d. isdigit c"
  shows "is_date_text (y @ CHR ''-'' # m @ CHR ''-'' # d)"
    and "\<forall>c \<in> set (y @ CHR ''-'' # m @ CHR ''-'' # d). safe_char c"
proof -
  from assms(4) obtain m1 m2 where m: "m = [m1, m2]"
    by (cases m; cases "tl m") auto
  from assms(6) obtain d1 d2 where d: "d = [d1, d2]"
    by (cases d; cases "tl d") auto
  have nd: "\<not> isdigit CHR ''-''" by (simp add: isdigit_def)
  have t: "takeWhile isdigit (y @ CHR ''-'' # m @ CHR ''-'' # d) = y"
    using assms(1) nd by (simp add: takeWhile_append2)
  show "is_date_text (y @ CHR ''-'' # m @ CHR ''-'' # d)"
    unfolding is_date_text_def t Let_def
    using assms(2,3,5,7) by (simp add: m d)
  show "\<forall>c \<in> set (y @ CHR ''-'' # m @ CHR ''-'' # d). safe_char c"
    using assms(1,5,7) by (auto simp: dash_safe dest: isdigit_safe)
qed

lemma strftime_ymd_text:
  assumes "y \<le> 9999" "m \<le> 99" "d \<le> 99"
  shows "is_date_text (strftime_ymd (y, m, d))"
    and "\<forall>c \<in> set (strftime_ymd (y, m, d)). safe_char c"
proof -
  from assms have ly: "length (str_nat y) \<le> 4" and lm: "length (zero_pad 2 m) = 2"
    and ld: "length (zero_pad 2 d) = 2"
    by (simp_all add: zero_pad_length str_nat_length)
  have l1: "1 \<le> length (str_nat y)"
    using str_nat_nonempty [of y] by (cases "str_nat y") simp_all
  have s: "strftime_ymd (y, m, d)
             = str_nat y @ CHR ''-'' # zero_pad 2 m @ CHR ''-'' # zero_pad 2 d"
    by (simp add: strftime_ymd_def)
  from date_text_intro [OF str_nat_digits l1 ly lm zero_pad_digits ld zero_pad_digits]
  show "is_date_text (strftime_ymd (y, m, d))"
    and "\<forall>c \<in> set (strftime_ymd (y, m, d)). safe_char c"
    unfolding s by blast+
qed

lemma ymd_here_take: "ymd_here s \<Longrightarrow> is_iso_date (take 10 s)"
  by (simp add: is_iso_date_def ymd_here_def drop_take)

lemma iso_date_text:
  assumes "is_iso_date s"
  shows "is_date_text s" and "\<forall>c \<in> set s. safe_char c"
proof -
  from assms have len: "length s = 10" and y: "list_all isdigit (take 4 s)"
    and a: "s ! 4 = CHR ''-''" and m: "list_all isdigit (take 2 (drop 5 s))"
    and b: "s ! 7 = CHR ''-''" and d: "list_all isdigit (take 2 (drop 8 s))"
    unfolding is_iso_date_def ymd_here_def by blast+
  have "s = take 4 s @ drop 4 s" by simp
  also have "drop 4 s = s ! 4 # drop 5 s" using len Cons_nth_drop_Suc [of 4 s] by simp
  also have "drop 5 s = take 2 (drop 5 s) @ drop 7 s" 
    using append_take_drop_id [of 2 "drop 5 s"] by simp
  also have "drop 7 s = s ! 7 # drop 8 s" using len Cons_nth_drop_Suc [of 7 s] by simp
  also have "drop 8 s = take 2 (drop 8 s)" using len by simp
  finally have eq: "s = take 4 s @ CHR ''-'' # take 2 (drop 5 s) @ CHR ''-'' # take 2 (drop 8 s)"
    using a b by simp
  have l: "1 \<le> length (take 4 s)" "length (take 4 s) \<le> 4" "length (take 2 (drop 5 s)) = 2"
    "length (take 2 (drop 8 s)) = 2"
    using len by simp_all
  from y m d have dg: "\<forall>c \<in> set (take 4 s). isdigit c"
    "\<forall>c \<in> set (take 2 (drop 5 s)). isdigit c" "\<forall>c \<in> set (take 2 (drop 8 s)). isdigit c"
    by (simp_all add: list_all_digits)
  from date_text_intro [OF dg(1) l(1,2,3) dg(2) l(4) dg(3)]
  have 1: "is_date_text (take 4 s @ CHR ''-'' # take 2 (drop 5 s) @ CHR ''-'' # take 2 (drop 8 s))"
    and 2: "\<forall>c \<in> set (take 4 s @ CHR ''-'' # take 2 (drop 5 s) @ CHR ''-'' # take 2 (drop 8 s)).
           safe_char c"
    by blast+
  from 1 show "is_date_text s" by (subst eq)
  from 2 show "\<forall>c \<in> set s. safe_char c" by (subst eq)
qed

lemma search_ymd_iso: "search_ymd s = Some found \<Longrightarrow> is_iso_date found"
  by (induction s) (auto split: if_splits dest: ymd_here_take)

lemma try_formats_text:
  "try_formats s fmts = Some formatted \<Longrightarrow>
     is_date_text formatted \<and> (\<forall>c \<in> set formatted. safe_char c)"
proof (induction fmts)
  case Nil
  then show ?case by simp
next
  case (Cons fmt fmts)
  show ?case
  proof (cases "strptime (strip s) fmt")
    case (Inl e)
    with Cons show ?thesis by simp
  next
    case (Inr dt)
    obtain y m d where dt: "dt = (y, m, d)" by (cases dt) auto
    from strptime_bound [OF Inr [unfolded dt]]
    have "y \<le> 9999" "m \<le> 99" "d \<le> 99" by simp_all
    from strftime_ymd_text [OF this]
    have "is_date_text (strftime_ymd (y, m, d))"
      and "\<forall>c \<in> set (strftime_ymd (y, m, d)). safe_char c"
      by blast+
    with Cons.prems Inr dt show ?thesis by simp
  qed
qed

lemma format_date_text:
  "format_date v \<noteq> [] \<Longrightarrow>
     is_date_text (format_date v) \<and> (\<forall>c \<in> set (format_date v). safe_char c)"
  by (auto simp: format_date_def split: if_splits json.splits option.splits
           dest: try_formats_text search_ymd_iso iso_date_text)

lemma format_date_safe: "\<forall>c \<in> set (format_date v). safe_char c"
proof (cases "format_date v = []")
  case True
  then show ?thesis by simp
next
  case False
  from format_date_text [OF False] show ?thesis by blast
qed

lemma clean_text_safe: "clean_text_for_filename v = Inr c \<Longrightarrow> \<forall>x \<in> set c. safe_char x"
  by (auto simp: clean_text_for_filename_def safe_char_def Let_def split: if_splits json.splits)

lemma splitext_ext_subset: "set (snd (splitext p)) \<subseteq> set p"
  by (auto simp: splitext_def Let_def dest: in_set_dropD)

lemma splitext_name_subset: "set (fst (splitext p)) \<subseteq> set p"
  by (auto simp: splitext_def Let_def dest: in_set_takeD)

lemma sanitize_filename_safe:
  assumes "sanitize_filename raw = Inr base_filename"
  shows "\<forall>c \<in> set base_filename. safe_char c"
proof -
  from assms obtain s where raw: "raw = JString s"
    by (cases raw) (simp_all add: sanitize_filename_def)
  define t where "t = map (\<lambda>c. if word_char c \<or> c = CHR ''.'' \<or> c = CHR ''-'' then c else CHR ''_'') s"
  have t: "\<forall>c \<in> set t. safe_char c"
    by (auto simp: t_def safe_char_def word_char_def)
  show ?thesis
  proof (cases "length t > 100")
    case False
    with assms raw have "base_filename = t" by (simp add: sanitize_filename_def t_def)
    with t show ?thesis by simp
  next
    case True
    with assms raw have "base_filename = take 95 (fst (splitext t)) @ snd (splitext t)"
      by (simp add: sanitize_filename_def t_def [symmetric] split_beta)
    then have "set base_filename \<subseteq> set t"
      using splitext_ext_subset [of t] splitext_name_subset [of t]
      by (auto dest: in_set_takeD)
    with t show ?thesis by auto
  qed
qed

lemma filter_safe: "\<forall>c \<in> set s. safe_char c \<Longrightarrow> filter safe_char s = s"
  by (simp add: filter_id_conv)

lemma extension_or_jpg_safe:
  assumes "\<forall>c \<in> set base_filename. safe_char c"
  shows "\<forall>c \<in> set (extension_or_jpg base_filename). safe_char c"
proof (cases "snd (splitext base_filename) = []")
  case True
  then show ?thesis by (simp add: extension_or_jpg_def safe_char_def isalnum_def)
next
  case False
  with assms splitext_ext_subset [of base_filename] show ?thesis
    by (auto simp: extension_or_jpg_def)
qed

lemma row_name_safe:
  assumes "\<forall>c \<in> set base_filename. safe_char c"
  shows "filter safe_char (''row'' @ str_int row_num @ ''_'' @ base_filename)
           = ''row'' @ str_int row_num @ ''_'' @ base_filename"
proof (rule filter_safe)
  have "\<forall>c \<in> set ''row''. safe_char c" by (simp add: safe_char_def isalnum_def)
  with assms str_int_safe [of row_num]
  show "\<forall>c \<in> set (''row'' @ str_int row_num @ ''_'' @ base_filename). safe_char c"
    by (auto simp: dash_safe)
qed

lemma rich_name_safe:
  assumes "\<forall>c \<in> set base_filename. safe_char c" and "\<forall>c \<in> set category. safe_char c"
  shows "filter safe_char (format_date v @ ''_'' @ category @ ''_'' @ str_int row_num
                             @ extension_or_jpg base_filename)
           = format_date v @ ''_'' @ category @ ''_'' @ str_int row_num
               @ extension_or_jpg base_filename"
proof (rule filter_safe)
  from assms str_int_safe [of row_num] format_date_safe [of v]
    extension_or_jpg_safe [OF assms(1)]
  show "\<forall>c \<in> set (format_date v @ ''_'' @ category @ ''_'' @ str_int row_num
                      @ extension_or_jpg base_filename). safe_char c"
    by (auto simp: dash_safe)
qed

lemma create_filename_value:
  assumes "sanitize_filename raw = Inr base_filename"
  shows "create_filename self row_data row_num base_filename date_column type_column
           = (if normalized_date row_data date_column \<noteq> []
                 \<and> normalized_category row_data type_column \<noteq> []
              then (normalized_date row_data date_column @ ''_''
                      @ normalized_category row_data type_column @ ''_''
                      @ str_int row_num @ extension_or_jpg base_filename,
                    self\<lparr>current_form_naming_format := Custom\<rparr>)
              else (''row'' @ str_int row_num @ ''_'' @ base_filename,
                    self\<lparr>current_form_naming_format := Fallback\<rparr>))"
proof -
  note base = sanitize_filename_safe [OF assms]
  let ?row = "''row'' @ str_int row_num @ ''_'' @ base_filename"
  show ?thesis
  proof (cases row_data)
    case (JObject kvs)
    let ?d = "dict_get kvs date_column (JString [])"
    let ?t = "dict_get kvs type_column (JString [])"
    have nd: "normalized_date row_data date_column = format_date ?d"
      by (simp add: normalized_date_def row_get_def JObject)
    show ?thesis
    proof (cases "clean_text_for_filename ?t")
      case (Inl e)
      then have nc: "normalized_category row_data type_column = []"
        by (simp add: normalized_category_def row_get_def JObject bind_err_def)
      from Inl have "create_filename_body row_data row_num base_filename date_column type_column
                       = Inl e"
        by (simp add: create_filename_body_def row_get_def JObject bind_err_def)
      then show ?thesis by (simp add: create_filename_def nc)
    next
      case (Inr category)
      then have nc: "normalized_category row_data type_column = category"
        by (simp add: normalized_category_def row_get_def JObject bind_err_def)
      note cat = clean_text_safe [OF Inr]
      from Inr have body:
        "create_filename_body row_data row_num base_filename date_column type_column
           = (if format_date ?d \<noteq> [] \<and> category \<noteq> []
              then Inr (filter safe_char
                          (format_date ?d @ ''_'' @ category @ ''_'' @ str_int row_num
                             @ extension_or_jpg base_filename), Custom)
              else Inr (filter safe_char ?row, Fallback))"
        by (simp add: create_filename_body_def row_get_def JObject bind_err_def Let_def
              extension_or_jpg_def)
      show ?thesis
        unfolding create_filename_def body nd nc
        by (simp only: rich_name_safe [OF base cat] row_name_safe [OF base]
              if_distrib [of "case_sum _ _"] sum.case prod.case split: if_splits)
    qed
  next
    case JNull
    then show ?thesis
      by (simp add: create_filename_def create_filename_body_def row_get_def bind_err_def
            normalized_date_def)
  next
    case (JBool b)
    then show ?thesis
      by (simp add: create_filename_def create_filename_body_def row_get_def bind_err_def
            normalized_date_def)
  next
    case (JInt i)
    then show ?thesis
      by (simp add: create_filename_def create_filename_body_def row_get_def bind_err_def
            normalized_date_def)
  next
    case (JFloat f)
    then show ?thesis
      by (simp add: create_filename_def create_filename_body_def row_get_def bind_err_def
            normalized_date_def)
  next
    case (JString s)
    then show ?thesis
      by (simp add: create_filename_def create_filename_body_def row_get_def bind_err_def
            normalized_date_def)
  next
    case (JArray xs)
    then show ?thesis
      by (simp add: create_filename_def create_filename_body_def row_get_def bind_err_def
            normalized_date_def)
  qed
qed



lemma example_sanitized: "sanitize_filename (JString ''test.jpg'') = Inr ''test.jpg''"
  by code_simp




section \<open>Properties of the duplicate check on derived filenames\<close>

lemma split_on_without: "c \<notin> set s \<Longrightarrow> split_on c s = [s]"
  by (induction s) auto

lemma split_on_append: "split_on c (a @ c # b) = split_on c a @ split_on c b"
proof (induction a)
  case Nil
  show ?case by simp
next
  case (Cons x a)
  show ?case
  proof (cases "x = c")
    case True
    with Cons show ?thesis by simp
  next
    case False
    obtain p ps where p: "split_on c a = p # ps"
      using split_on_nonempty [of c a] by (cases "split_on c a") auto
    with False Cons show ?thesis by simp
  qed
qed

lemma split_on_last: "c \<notin> set seg \<Longrightarrow> last (split_on c (a @ c # seg)) = seg"
  by (simp add: split_on_append split_on_without)

lemma endswith_iff: "endswith s p \<longleftrightarrow> (\<exists>a. s = a @ p)"
proof
  assume "endswith s p"
  then have "s = take (length s - length p) s @ p"
    by (metis append_take_drop_id endswith_def)
  then show "\<exists>a. s = a @ p" ..
next
  assume "\<exists>a. s = a @ p"
  then show "endswith s p" by (auto simp: endswith_def)
qed

lemma endswith_shorter: "endswith s (a @ p) \<Longrightarrow> endswith s p"
  by (auto simp: endswith_iff)

lemma row_ext_suffix_last:
  assumes "CHR ''_'' \<notin> set seg"
      and "length (filter (\<lambda>x. x = CHR ''.'') seg) \<le> 1"
  shows "row_ext_suffix (a @ CHR ''_'' # seg) = Inr (CHR ''_'' # seg)"
proof -
  have l: "index_list (split_on CHR ''_'' (a @ CHR ''_'' # seg)) (- 1) = Inr seg"
    using index_list_last [OF split_on_nonempty, of "CHR ''_''" "a @ CHR ''_'' # seg"]
    by (simp add: split_on_last [OF assms(1)])
  show ?thesis
  proof (cases "CHR ''.'' \<in> set seg")
    case False
    then have "split_on CHR ''.'' seg = [seg]" by (rule split_on_without)
    with l False show ?thesis
      by (simp add: row_ext_suffix_def bind_err_def index_list_def)
  next
    case True
    then obtain r e where seg: "seg = r @ CHR ''.'' # e" and r: "CHR ''.'' \<notin> set r"
      by (auto dest: split_list_first)
    with assms(2) have e: "CHR ''.'' \<notin> set e"
      by (auto simp: filter_empty_conv)
    have "split_on CHR ''.'' seg = [r, e]"
      unfolding seg by (simp add: split_on_append split_on_without r e)
    with l True seg show ?thesis
      by (simp add: row_ext_suffix_def bind_err_def index_list_def)
  qed
qed

lemma custom_check_by_segment:
  assumes "map_of existing_files form_name = Some files"
      and "current_form_naming_format self = Custom"
      and "CHR ''_'' \<notin> set seg"
      and "length (filter (\<lambda>x. x = CHR ''.'') seg) \<le> 1"
      and "CHR ''_'' \<in> set a"
  shows "is_file_already_uploaded self (a @ CHR ''_'' # seg) form_name existing_files
           = (a @ CHR ''_'' # seg \<in> files
              \<or> (\<exists>existing_file \<in> files. endswith existing_file (CHR ''_'' # seg)))"
proof -
  from assms(5) have "filter (\<lambda>x. x = CHR ''_'') a \<noteq> []"
    by (auto simp: filter_empty_conv)
  then have "1 \<le> length (filter (\<lambda>x. x = CHR ''_'') a)"
    by (cases "filter (\<lambda>x. x = CHR ''_'') a") simp_all
  then have "3 \<le> length (split_on CHR ''_'' (a @ CHR ''_'' # seg))"
    by (simp add: split_on_length)
  with assms(1,2) row_ext_suffix_last [OF assms(3,4), of a] show ?thesis
    by (simp add: is_file_already_uploaded_def)
qed

lemma rfind_drop:
  assumes "0 \<le> rfind c s"
  shows "\<exists>e. drop (nat (rfind c s)) s = c # e \<and> c \<notin> set e"
proof -
  from assms obtain y front where d: "dropWhile (\<lambda>x. x \<noteq> c) (rev s) = y # front"
    by (cases "dropWhile (\<lambda>x. x \<noteq> c) (rev s)") (auto simp: rfind_def)
  then have y: "y = c" using hd_dropWhile [of "\<lambda>x. x \<noteq> c" "rev s"] by auto
  have r: "rfind c s = int (length front)" using d by (simp add: rfind_def)
  have "rev s = takeWhile (\<lambda>x. x \<noteq> c) (rev s) @ c # front"
    using takeWhile_dropWhile_id [of "\<lambda>x. x \<noteq> c" "rev s"] d y by simp
  then have "rev (rev s) = rev (takeWhile (\<lambda>x. x \<noteq> c) (rev s) @ c # front)" by simp
  then have s: "s = rev front @ c # rev (takeWhile (\<lambda>x. x \<noteq> c) (rev s))" by simp
  have "drop (length front) s = c # rev (takeWhile (\<lambda>x. x \<noteq> c) (rev s))"
    by (subst s) simp
  moreover have "c \<notin> set (rev (takeWhile (\<lambda>x. x \<noteq> c) (rev s)))"
    by (auto dest: set_takeWhileD)
  ultimately show ?thesis using r by auto
qed

lemma splitext_ext_shape:
  "snd (splitext p) = [] \<or> (\<exists>e. snd (splitext p) = CHR ''.'' # e \<and> CHR ''.'' \<notin> set e)"
proof (cases "snd (splitext p) = []")
  case True
  then show ?thesis by simp
next
  case False
  then have gt: "rfind CHR ''.'' p > rfind CHR ''/'' p"
    and ext: "snd (splitext p) = drop (nat (rfind CHR ''.'' p)) p"
    by (auto simp: splitext_def Let_def split: if_splits)
  have "- 1 \<le> rfind CHR ''/'' p" by (simp add: rfind_def split: list.splits)
  with gt have "0 \<le> rfind CHR ''.'' p" by simp
  from rfind_drop [OF this] ext show ?thesis by simp
qed

lemma extension_or_jpg_shape:
  "\<exists>e. extension_or_jpg base_filename = CHR ''.'' # e \<and> CHR ''.'' \<notin> set e"
  using splitext_ext_shape [of base_filename]
  by (auto simp: extension_or_jpg_def)

lemma str_int_plain: "CHR ''_'' \<notin> set (str_int i) \<and> CHR ''.'' \<notin> set (str_int i)"
proof -
  have "\<not> isdigit CHR ''_''" "\<not> isdigit CHR ''.''" by (simp_all add: isdigit_def)
  with str_nat_digits show ?thesis by (auto simp: str_int_def)
qed

lemma derived_name_check:
  assumes "map_of existing_files form_name = Some files"
      and "current_form_naming_format self = Custom"
      and "filename = date @ ''_'' @ category @ ''_'' @ str_int row_num @ ext"
      and "ext = CHR ''.'' # e" and "CHR ''.'' \<notin> set e"
  shows "((\<exists>existing_file \<in> files. endswith existing_file (''_'' @ str_int row_num @ ext))
            \<longrightarrow> is_file_already_uploaded self filename form_name existing_files)
       \<and> (CHR ''_'' \<notin> set ext \<longrightarrow>
            is_file_already_uploaded self filename form_name existing_files
              = (filename \<in> files
                 \<or> (\<exists>existing_file \<in> files.
                       endswith existing_file (''_'' @ str_int row_num @ ext))))"
proof (cases "CHR ''_'' \<in> set e")
  case False
  let ?a = "date @ ''_'' @ category"
  let ?seg = "str_int row_num @ ext"
  have f: "filename = ?a @ CHR ''_'' # ?seg" using assms(3) by simp
  have 1: "CHR ''_'' \<notin> set ?seg" using False str_int_plain [of row_num] assms(4) by simp
  have "filter (\<lambda>x. x = CHR ''.'') (str_int row_num) = []"
    "filter (\<lambda>x. x = CHR ''.'') e = []"
    using str_int_plain [of row_num] assms(5) by (auto simp: filter_empty_conv)
  then have 2: "length (filter (\<lambda>x. x = CHR ''.'') ?seg) \<le> 1" using assms(4) by simp
  have 3: "CHR ''_'' \<in> set ?a" by simp
  from custom_check_by_segment [OF assms(1,2) 1 2 3] show ?thesis
    unfolding f by simp
next
  case True
  then obtain e1 seg where e: "e = e1 @ CHR ''_'' # seg" and seg: "CHR ''_'' \<notin> set seg"
    by (auto dest: split_list_last)
  let ?a = "date @ ''_'' @ category @ ''_'' @ str_int row_num @ CHR ''.'' # e1"
  have f: "filename = ?a @ CHR ''_'' # seg" using assms(3,4) e by simp
  have "CHR ''.'' \<notin> set seg" using assms(5) e by simp
  then have "filter (\<lambda>x. x = CHR ''.'') seg = []" by (auto simp: filter_empty_conv)
  then have 2: "length (filter (\<lambda>x. x = CHR ''.'') seg) \<le> 1" by simp
  have 3: "CHR ''_'' \<in> set ?a" by simp
  have sfx: "''_'' @ str_int row_num @ ext = (''_'' @ str_int row_num @ CHR ''.'' # e1) @ CHR ''_'' # seg"
    using assms(4) e by simp
  have "is_file_already_uploaded self filename form_name existing_files"
    if "\<exists>existing_file \<in> files. endswith existing_file (''_'' @ str_int row_num @ ext)"
  proof -
    from that obtain existing_file where "existing_file \<in> files"
      and "endswith existing_file (''_'' @ str_int row_num @ ext)" by blast
    then have "\<exists>existing_file \<in> files. endswith existing_file (CHR ''_'' # seg)"
      unfolding sfx by (blast dest: endswith_shorter)
    with custom_check_by_segment [OF assms(1,2) seg 2 3] show ?thesis
      unfolding f by simp
  qed
  moreover have "CHR ''_'' \<in> set ext" using True assms(4) by simp
  ultimately show ?thesis by blast
qed

text \<open>
  C1. When the catalog has an entry for the form's folder, a filename present verbatim in
  that entry is a duplicate. A filename that \<open>create_filename\<close> derived under the custom
  (rich) scheme, for row \<open>N\<close> and a sanitized base filename, is moreover a duplicate as
  soon as some catalogued filename ends with \<open>_N\<close> followed by the extension, whatever
  date and category precede that suffix in the catalogued name; and when the extension has
  no underscore these are the only duplicates. In general, under the custom scheme a
  filename of at least three parts whose last part has at most one dot is a duplicate
  exactly when it is catalogued or a catalogued name ends with the underscore and that
  last part.
\<close>

theorem is_file_already_uploaded_exact_or_suffix:
  assumes "map_of existing_files form_name = Some files"
  shows "(filename \<in> files \<longrightarrow>
            is_file_already_uploaded self filename form_name existing_files)
       \<and> (sanitize_filename raw = Inr base_filename
            \<and> create_filename prior row_data row_num base_filename date_column type_column
                = (filename, self)
            \<and> current_form_naming_format self = Custom \<longrightarrow>
            filename = normalized_date row_data date_column @ ''_''
                         @ normalized_category row_data type_column @ ''_''
                         @ str_int row_num @ extension_or_jpg base_filename
            \<and> ((\<exists>existing_file \<in> files.
                   endswith existing_file
                     (''_'' @ str_int row_num @ extension_or_jpg base_filename))
                 \<longrightarrow> is_file_already_uploaded self filename form_name existing_files)
            \<and> (CHR ''_'' \<notin> set (extension_or_jpg base_filename) \<longrightarrow>
                 is_file_already_uploaded self filename form_name existing_files
                   = (filename \<in> files
                      \<or> (\<exists>existing_file \<in> files.
                            endswith existing_file
                              (''_'' @ str_int row_num @ extension_or_jpg base_filename)))))
       \<and> (current_form_naming_format self = Custom
            \<and> 3 \<le> length (split_on CHR ''_'' filename)
            \<and> length (filter (\<lambda>c. c = CHR ''.'') (last (split_on CHR ''_'' filename))) \<le> 1
            \<longrightarrow>
            is_file_already_uploaded self filename form_name existing_files
              = (filename \<in> files
                 \<or> (\<exists>existing_file \<in> files.
                       endswith existing_file
                         (CHR ''_'' # last (split_on CHR ''_'' filename)))))"
    (is "?verbatim \<and> (?derived \<longrightarrow> ?suffix) \<and> (?parts \<longrightarrow> ?segment)")
proof (intro conjI)
  show ?verbatim using assms by (simp add: is_file_already_uploaded_def)
  show "?derived \<longrightarrow> ?suffix"
  proof
    assume d: ?derived
    then have san: "sanitize_filename raw = Inr base_filename"
      and made: "create_filename prior row_data row_num base_filename date_column type_column
                   = (filename, self)"
      and custom: "current_form_naming_format self = Custom"
      by blast+
    from made custom create_filename_value [OF san, of prior row_data row_num date_column
        type_column]
    have name: "filename = normalized_date row_data date_column @ ''_''
                         @ normalized_category row_data type_column @ ''_''
                         @ str_int row_num @ extension_or_jpg base_filename"
      by (auto split: if_splits)
    from extension_or_jpg_shape [of base_filename] obtain e
      where e: "extension_or_jpg base_filename = CHR ''.'' # e" "CHR ''.'' \<notin> set e" by blast
    from derived_name_check [OF assms custom name e] name show ?suffix by blast
  qed
  show "?parts \<longrightarrow> ?segment"
  proof
    assume p: ?parts
    let ?seg = "last (split_on CHR ''_'' filename)"
    from p have "2 \<le> length (filter (\<lambda>x. x = CHR ''_'') filename)"
      by (simp add: split_on_length)
    then have "filter (\<lambda>x. x = CHR ''_'') filename \<noteq> []" by auto
    then have u: "CHR ''_'' \<in> set filename" by (auto simp: filter_empty_conv)
    then obtain a seg where f: "filename = a @ CHR ''_'' # seg" and s: "CHR ''_'' \<notin> set seg"
      by (auto dest: split_list_last)
    have seg: "?seg = seg" unfolding f by (rule split_on_last [OF s])
    have "length (filter (\<lambda>x. x = CHR ''_'') filename)
            = Suc (length (filter (\<lambda>x. x = CHR ''_'') a))"
    proof -
      from s have "filter (\<lambda>x. x = CHR ''_'') seg = []" by (auto simp: filter_empty_conv)
      then show ?thesis unfolding f by simp
    qed
    with \<open>2 \<le> length (filter (\<lambda>x. x = CHR ''_'') filename)\<close>
    have "filter (\<lambda>x. x = CHR ''_'') a \<noteq> []" by auto
    then have a: "CHR ''_'' \<in> set a" by (auto simp: filter_empty_conv)
    from p seg have dots: "length (filter (\<lambda>x. x = CHR ''.'') seg) \<le> 1" by simp
    from p have custom: "current_form_naming_format self = Custom" by blast
    from custom_check_by_segment [OF assms custom s dots a] show ?segment
      unfolding seg f [symmetric] .
  qed
qed

lemma example_derived_name:
  "create_filename example_self (example_submissions ! 0) 7 ''test.jpg'' ''Date'' ''Receipt_Type''
     = (''2025-06-26_Food_7.jpg'', example_self\<lparr>current_form_naming_format := Custom\<rparr>)"
  by code_simp

lemma example_suffix_parts:
  "extension_or_jpg ''test.jpg'' = ''.jpg''" "str_int 7 = ''7''"
  "split_on CHR ''_'' ''a_b_c.txt'' = [''a'', ''b'', ''c.txt'']"
  by code_simp+

theorem is_file_already_uploaded_exact_or_suffix_witness:
  "is_file_already_uploaded example_self ''row3_a.png'' ''Receipts'' [(''Receipts'', {''row3_a.png''})]
   \<and> is_file_already_uploaded (example_self\<lparr>current_form_naming_format := Custom\<rparr>)
       ''2025-06-26_Food_7.jpg'' ''Receipts'' [(''Receipts'', {''2024-01-01_Fuel_7.jpg''})]
   \<and> \<not> is_file_already_uploaded (example_self\<lparr>current_form_naming_format := Custom\<rparr>)
       ''2025-06-26_Food_7.jpg'' ''Receipts'' [(''Receipts'', {''2024-01-01_Fuel_8.jpg''})]
   \<and> is_file_already_uploaded (example_self\<lparr>current_form_naming_format := Custom\<rparr>)
       ''a_b_c.txt'' ''Receipts'' [(''Receipts'', {''zz_c.txt''})]"
proof -
  let ?custom = "example_self\<lparr>current_form_naming_format := Custom\<rparr>"
  have m: "map_of [(''Receipts'', {''row3_a.png''})] ''Receipts'' = Some {''row3_a.png''}"
    "map_of [(''Receipts'', {''2024-01-01_Fuel_7.jpg''})] ''Receipts''
       = Some {''2024-01-01_Fuel_7.jpg''}"
    "map_of [(''Receipts'', {''2024-01-01_Fuel_8.jpg''})] ''Receipts''
       = Some {''2024-01-01_Fuel_8.jpg''}"
    "map_of [(''Receipts'', {''zz_c.txt''})] ''Receipts'' = Some {''zz_c.txt''}"
    by simp_all
  have c: "current_form_naming_format ?custom = Custom" by simp
  from is_file_already_uploaded_exact_or_suffix [OF m(1), of "''row3_a.png''" example_self]
  have 1: "is_file_already_uploaded example_self ''row3_a.png'' ''Receipts''
             [(''Receipts'', {''row3_a.png''})]"
    by simp
  from is_file_already_uploaded_exact_or_suffix [OF m(2), of "''2025-06-26_Food_7.jpg''" ?custom
      "JString ''test.jpg''" "''test.jpg''" example_self "example_submissions ! 0" 7
      "''Date''" "''Receipt_Type''"]
    example_sanitized example_derived_name c
  have 2: "is_file_already_uploaded ?custom ''2025-06-26_Food_7.jpg'' ''Receipts''
             [(''Receipts'', {''2024-01-01_Fuel_7.jpg''})]"
    by (simp add: example_suffix_parts endswith_def)
  from is_file_already_uploaded_exact_or_suffix [OF m(3), of "''2025-06-26_Food_7.jpg''" ?custom
      "JString ''test.jpg''" "''test.jpg''" example_self "example_submissions ! 0" 7
      "''Date''" "''Receipt_Type''"]
    example_sanitized example_derived_name c
  have 3: "\<not> is_file_already_uploaded ?custom ''2025-06-26_Food_7.jpg'' ''Receipts''
             [(''Receipts'', {''2024-01-01_Fuel_8.jpg''})]"
    by (simp add: example_suffix_parts endswith_def)
  from is_file_already_uploaded_exact_or_suffix [OF m(4), of "''a_b_c.txt''" ?custom]
  have 4: "is_file_already_uploaded ?custom ''a_b_c.txt'' ''Receipts''
             [(''Receipts'', {''zz_c.txt''})]"
    by (simp add: example_suffix_parts endswith_def)
  from 1 2 3 4 show ?thesis by blast
qed

end
